theory Spec2Isabelle
  imports Main "HOL-Library.Word"
begin

unbundle bit_operations_syntax

section \<open>Expressions\<close>

text \<open>
  The parser of \<^verbatim>\<open>script.js\<close> builds plain objects tagged by their \<^verbatim>\<open>type\<close> field:
  \<^verbatim>\<open>{type:'var', name}\<close>, \<^verbatim>\<open>{type:'not', expr}\<close>, and \<^verbatim>\<open>{type:'and'|'or'|'imp', left, right}\<close>.
  A JavaScript string is modelled as the list of its code units, for code units below 256.
\<close>

datatype expr =
    EVar string
  | ENot expr
  | EAnd expr expr
  | EOr expr expr
  | EImp expr expr

subsection \<open>Canonical printer (\<^verbatim>\<open>exprToStr\<close>)\<close>

fun exprToStr :: "expr \<Rightarrow> string" where
  "exprToStr (EVar name) = name"
| "exprToStr (ENot inner) =
     (case inner of
        EVar _ \<Rightarrow> ''~'' @ exprToStr inner
      | _ \<Rightarrow> ''~('' @ exprToStr inner @ '')'')"
| "exprToStr (EAnd l r) = ''('' @ exprToStr l @ '' & '' @ exprToStr r @ '')''"
| "exprToStr (EOr l r) = ''('' @ exprToStr l @ '' | '' @ exprToStr r @ '')''"
| "exprToStr (EImp l r) = ''('' @ exprToStr l @ '' -> '' @ exprToStr r @ '')''"

section \<open>Evaluator\<close>

text \<open>
  An assignment is the plain object \<^verbatim>\<open>{}\<close> that \<^verbatim>\<open>solve\<close> fills with
  \<^verbatim>\<open>assignment[v] = Boolean(...)\<close>. Its own properties are a map from names to booleans.
  A plain object inherits the members of \<^verbatim>\<open>Object.prototype\<close>: reading one of those names
  on an object that has no own property of that name yields the inherited member (a
  function, or the prototype object itself for \<^verbatim>\<open>__proto__\<close>), and writing a boolean to
  \<^verbatim>\<open>__proto__\<close> runs the inherited setter, which ignores a value that is not an object.
\<close>

type_synonym assignment = "string \<rightharpoonup> bool"

datatype jsval = JUndefined | JBool bool | JObject

definition objectPrototypeKeys :: "string list" where
  "objectPrototypeKeys =
     [''constructor'', ''__defineGetter__'', ''__defineSetter__'', ''hasOwnProperty'',
      ''__lookupGetter__'', ''__lookupSetter__'', ''isPrototypeOf'',
      ''propertyIsEnumerable'', ''toString'', ''valueOf'', ''__proto__'',
      ''toLocaleString'']"

definition getProp :: "assignment \<Rightarrow> string \<Rightarrow> jsval" where
  "getProp a k =
     (case a k of
        Some b \<Rightarrow> JBool b
      | None \<Rightarrow> if k \<in> set objectPrototypeKeys then JObject else JUndefined)"

definition setProp :: "assignment \<Rightarrow> string \<Rightarrow> bool \<Rightarrow> assignment" where
  "setProp a k b = (if k = ''__proto__'' then a else a(k \<mapsto> b))"

fun toBoolean :: "jsval \<Rightarrow> bool" where
  "toBoolean JUndefined = False"
| "toBoolean (JBool b) = b"
| "toBoolean JObject = True"

fun evalExpr :: "expr \<Rightarrow> assignment \<Rightarrow> bool" where
  "evalExpr (EVar name) a = toBoolean (getProp a name)"
| "evalExpr (ENot e) a = (\<not> evalExpr e a)"
| "evalExpr (EAnd l r) a = (evalExpr l a \<and> evalExpr r a)"
| "evalExpr (EOr l r) a = (evalExpr l a \<or> evalExpr r a)"
| "evalExpr (EImp l r) a = ((\<not> evalExpr l a) \<or> evalExpr r a)"

section \<open>Tokenizer and parser\<close>

text \<open>
  \<^verbatim>\<open>tokenize\<close> pads every \<^verbatim>\<open>->\<close>, then every parenthesis, \<^verbatim>\<open>~\<close>, \<^verbatim>\<open>&\<close> and \<^verbatim>\<open>|\<close> with
  blanks, trims, splits at runs of white space and drops empty pieces. The white space of
  \<^verbatim>\<open>\s\<close> below code unit 256 is TAB, LF, VT, FF, CR, SPACE and NBSP.
\<close>

fun replaceArrow :: "string \<Rightarrow> string" where
  "replaceArrow [] = []"
| "replaceArrow [c] = [c]"
| "replaceArrow (c # d # cs) =
     (if c = CHR ''-'' \<and> d = CHR ''>'' then '' -> '' @ replaceArrow cs
      else c # replaceArrow (d # cs))"

fun replaceChar :: "char \<Rightarrow> string \<Rightarrow> string" where
  "replaceChar x [] = []"
| "replaceChar x (c # cs) =
     (if c = x then [CHR '' '', x, CHR '' ''] @ replaceChar x cs else c # replaceChar x cs)"

definition isSpace :: "char \<Rightarrow> bool" where
  "isSpace c = (c \<in> {CHR 0x09, CHR 0x0A, CHR 0x0B, CHR 0x0C, CHR 0x0D, CHR 0x20, CHR 0xA0})"

fun splitWs :: "string \<Rightarrow> string \<Rightarrow> string list" where
  "splitWs acc [] = (if acc = [] then [] else [acc])"
| "splitWs acc (c # cs) =
     (if isSpace c then (if acc = [] then splitWs [] cs else acc # splitWs [] cs)
      else splitWs (acc @ [c]) cs)"

definition padOperators :: "string \<Rightarrow> string" where
  "padOperators s =
     replaceChar (CHR ''|'') (replaceChar (CHR ''&'') (replaceChar (CHR ''~'')
       (replaceChar (CHR '')'') (replaceChar (CHR ''('') (replaceArrow s)))))"

definition tokenize :: "string \<Rightarrow> string list" where
  "tokenize s = splitWs [] (padOperators s)"

datatype parse_error = MissingClosing | UnexpectedEnd | UnexpectedToken string

text \<open>
  The parser's cursor \<^verbatim>\<open>i\<close> into \<^verbatim>\<open>tokens\<close> is modelled by the list of tokens not yet
  consumed; every function returns the tree with the tokens that remain, or the error it
  throws. The two \<^verbatim>\<open>while\<close> loops are \<open>parseOrLoop\<close> and \<open>parseAndLoop\<close>. The tests
  \<open>length rest \<le> length ts\<close> are not in the source: they make the recursion well-founded
  and are shown below to hold always (lemma \<open>parse_length\<close>).
\<close>

function (sequential) parseImplication :: "string list \<Rightarrow> parse_error + expr \<times> string list"
  and parseOr :: "string list \<Rightarrow> parse_error + expr \<times> string list"
  and parseOrLoop :: "expr \<Rightarrow> string list \<Rightarrow> parse_error + expr \<times> string list"
  and parseAnd :: "string list \<Rightarrow> parse_error + expr \<times> string list"
  and parseAndLoop :: "expr \<Rightarrow> string list \<Rightarrow> parse_error + expr \<times> string list"
  and parseNot :: "string list \<Rightarrow> parse_error + expr \<times> string list"
  and parsePrimary :: "string list \<Rightarrow> parse_error + expr \<times> string list"
where
  "parseImplication ts =
     (case parseOr ts of
        Inl err \<Rightarrow> Inl err
      | Inr (left, rest) \<Rightarrow>
          (case rest of
             [] \<Rightarrow> Inr (left, rest)
           | t # rest' \<Rightarrow>
               if t = ''->'' \<and> length rest \<le> length ts then
                 (case parseImplication rest' of
                    Inl err \<Rightarrow> Inl err
                  | Inr (right, rest'') \<Rightarrow> Inr (EImp left right, rest''))
               else Inr (left, rest)))"
| "parseOr ts =
     (case parseAnd ts of
        Inl err \<Rightarrow> Inl err
      | Inr (node, rest) \<Rightarrow>
          if length rest \<le> length ts then parseOrLoop node rest else Inr (node, rest))"
| "parseOrLoop node [] = Inr (node, [])"
| "parseOrLoop node (t # rest) =
     (if t = ''|'' then
        (case parseAnd rest of
           Inl err \<Rightarrow> Inl err
         | Inr (right, rest') \<Rightarrow>
             if length rest' \<le> length rest then parseOrLoop (EOr node right) rest'
             else Inr (EOr node right, rest'))
      else Inr (node, t # rest))"
| "parseAnd ts =
     (case parseNot ts of
        Inl err \<Rightarrow> Inl err
      | Inr (node, rest) \<Rightarrow>
          if length rest \<le> length ts then parseAndLoop node rest else Inr (node, rest))"
| "parseAndLoop node [] = Inr (node, [])"
| "parseAndLoop node (t # rest) =
     (if t = ''&'' then
        (case parseNot rest of
           Inl err \<Rightarrow> Inl err
         | Inr (right, rest') \<Rightarrow>
             if length rest' \<le> length rest then parseAndLoop (EAnd node right) rest'
             else Inr (EAnd node right, rest'))
      else Inr (node, t # rest))"
| "parseNot [] = parsePrimary []"
| "parseNot (t # rest) =
     (if t = ''~'' then
        (case parseNot rest of
           Inl err \<Rightarrow> Inl err
         | Inr (e, rest') \<Rightarrow> Inr (ENot e, rest'))
      else parsePrimary (t # rest))"
| "parsePrimary [] = Inl UnexpectedEnd"
| "parsePrimary (t # rest) =
     (if t = ''('' then
        (case parseImplication rest of
           Inl err \<Rightarrow> Inl err
         | Inr (e, rest') \<Rightarrow>
             (case rest' of
                [] \<Rightarrow> Inl MissingClosing
              | t' # rest'' \<Rightarrow> if t' = '')'' then Inr (e, rest'') else Inl MissingClosing))
      else if t = [] then Inl UnexpectedEnd
      else Inr (EVar t, rest))"
  by pat_completeness auto

termination
  by (relation "measures
        [case_sum (case_sum length (case_sum length (\<lambda>p. length (snd p))))
           (case_sum (case_sum length (\<lambda>p. length (snd p))) (case_sum length length)),
         case_sum (case_sum (\<lambda>_. 6) (case_sum (\<lambda>_. 5) (\<lambda>_. 4)))
           (case_sum (case_sum (\<lambda>_. 3) (\<lambda>_. 2)) (case_sum (\<lambda>_. Suc 0) (\<lambda>_. 0)))]")
     auto

declare parseImplication.simps [simp del] parseOr.simps [simp del] parseAnd.simps [simp del]

definition parseFromString :: "string \<Rightarrow> parse_error + expr" where
  "parseFromString str =
     (case parseImplication (tokenize str) of
        Inl err \<Rightarrow> Inl err
      | Inr (root, rest) \<Rightarrow>
          (case rest of [] \<Rightarrow> Inr root | t # _ \<Rightarrow> Inl (UnexpectedToken t)))"

section \<open>Forward-chaining engine\<close>

text \<open>
  The reasons are template literals; the model keeps the rule and the strings put in its
  holes. \<open>ImplicationIntroduction\<close> is the text of the discharge line that
  \<^verbatim>\<open>buildStepsHtmlFromMap\<close> appends.
\<close>

datatype justification =
    Premise nat
  | Assumption
  | Simplification string
  | ModusPonens string string
  | ModusTollens string string
  | HypotheticalSyllogism string string
  | DisjunctiveSyllogism string string
  | ConjunctionIntroduction string string
  | ImplicationIntroduction

record entry =
  expr :: expr
  reason :: justification
  derivedFrom :: "string list"
  stepOrder :: nat

text \<open>
  \<^verbatim>\<open>map\<close> is a JavaScript \<^verbatim>\<open>Map\<close> (keys in insertion order), \<^verbatim>\<open>order\<close> an array; both are
  mutated in place by \<^verbatim>\<open>addExpr\<close>, so the model passes them along as one state.
\<close>

record fc_state =
  map' :: "(string \<times> entry) list"
  order :: "string list"

definition mapHas :: "(string \<times> entry) list \<Rightarrow> string \<Rightarrow> bool" where
  "mapHas m s = (map_of m s \<noteq> None)"

definition mapGet :: "(string \<times> entry) list \<Rightarrow> string \<Rightarrow> entry option" where
  "mapGet m s = map_of m s"

text \<open>
  What a statement can throw: the object \<^verbatim>\<open>{found: true}\<close> of \<^verbatim>\<open>addExpr\<close>, or the
  TypeError of reading \<^verbatim>\<open>.expr\<close> of \<^verbatim>\<open>undefined\<close> when \<^verbatim>\<open>map.get\<close> misses. A thrown value
  comes with the state at that moment, which the \<^verbatim>\<open>catch\<close> block reads.
\<close>

datatype exn = FoundExn | TypeErrorExn

type_synonym 'a thrown_or = "(exn \<times> fc_state) + 'a"

definition addExpr ::
  "string \<Rightarrow> fc_state \<Rightarrow> expr \<Rightarrow> justification \<Rightarrow> string list \<Rightarrow> (bool \<times> fc_state) thrown_or"
where
  "addExpr goalStr st ex rsn src =
     (let s = exprToStr ex in
      if mapHas (map' st) s then Inr (False, st)
      else
        let en = \<lparr>expr = ex, reason = rsn, derivedFrom = src,
                  stepOrder = length (order st) + 1\<rparr>;
            st' = \<lparr>map' = map' st @ [(s, en)], order = order st @ [s]\<rparr>
        in if s = goalStr then Inl (FoundExn, st') else Inr (True, st'))"

definition andThen :: "'a thrown_or \<Rightarrow> ('a \<Rightarrow> 'b thrown_or) \<Rightarrow> 'b thrown_or" where
  "andThen r k = (case r of Inl x \<Rightarrow> Inl x | Inr v \<Rightarrow> k v)"

text \<open>\<^verbatim>\<open>if (addExpr(...)) changed = true;\<close> on the pair of the state and \<^verbatim>\<open>changed\<close>.\<close>

definition tryAdd ::
  "string \<Rightarrow> expr \<Rightarrow> justification \<Rightarrow> string list \<Rightarrow> fc_state \<times> bool
     \<Rightarrow> (fc_state \<times> bool) thrown_or"
where
  "tryAdd goalStr ex rsn src stc =
     (case addExpr goalStr (fst stc) ex rsn src of
        Inl x \<Rightarrow> Inl x
      | Inr (added, st') \<Rightarrow> Inr (st', snd stc \<or> added))"

definition simplification ::
  "string \<Rightarrow> string \<Rightarrow> expr \<Rightarrow> fc_state \<times> bool \<Rightarrow> (fc_state \<times> bool) thrown_or"
where
  "simplification goalStr s e stc =
     (case e of
        EAnd l r \<Rightarrow>
          andThen (tryAdd goalStr l (Simplification s) [s] stc)
            (tryAdd goalStr r (Simplification s) [s])
      | _ \<Rightarrow> Inr stc)"

definition modusPonens ::
  "string \<Rightarrow> string \<Rightarrow> expr \<Rightarrow> expr \<Rightarrow> fc_state \<times> bool \<Rightarrow> (fc_state \<times> bool) thrown_or"
where
  "modusPonens goalStr s l r stc =
     (let leftStr = exprToStr l in
      if mapHas (map' (fst stc)) leftStr
      then tryAdd goalStr r (ModusPonens s leftStr) [s, leftStr] stc
      else Inr stc)"

definition modusTollens ::
  "string \<Rightarrow> string \<Rightarrow> expr \<Rightarrow> expr \<Rightarrow> fc_state \<times> bool \<Rightarrow> (fc_state \<times> bool) thrown_or"
where
  "modusTollens goalStr s l r stc =
     (let negRightStr = exprToStr (ENot r) in
      if mapHas (map' (fst stc)) negRightStr
      then tryAdd goalStr (ENot l) (ModusTollens s negRightStr) [s, negRightStr] stc
      else Inr stc)"

text \<open>
  \<^verbatim>\<open>JSON.stringify(e.right) === JSON.stringify(f.left)\<close>: every node is built with its keys
  in the same order, so the two renderings agree exactly when the trees are equal.
\<close>

definition hypotheticalSyllogism ::
  "string \<Rightarrow> string \<Rightarrow> string \<Rightarrow> expr \<Rightarrow> expr \<Rightarrow> expr \<Rightarrow> fc_state \<times> bool
     \<Rightarrow> (fc_state \<times> bool) thrown_or"
where
  "hypotheticalSyllogism goalStr s t l r f stc =
     (case f of
        EImp fl fr \<Rightarrow>
          if r = fl
          then tryAdd goalStr (EImp l fr) (HypotheticalSyllogism s t) [s, t] stc
          else Inr stc
      | _ \<Rightarrow> Inr stc)"

definition implicationRules ::
  "string \<Rightarrow> string \<Rightarrow> string \<Rightarrow> expr \<Rightarrow> expr \<Rightarrow> fc_state \<times> bool
     \<Rightarrow> (fc_state \<times> bool) thrown_or"
where
  "implicationRules goalStr s t e f stc =
     (case e of
        EImp l r \<Rightarrow>
          andThen (modusPonens goalStr s l r stc) (\<lambda>stc1.
          andThen (modusTollens goalStr s l r stc1)
            (hypotheticalSyllogism goalStr s t l r f))
      | _ \<Rightarrow> Inr stc)"

definition disjunctiveSyllogism ::
  "string \<Rightarrow> string \<Rightarrow> expr \<Rightarrow> fc_state \<times> bool \<Rightarrow> (fc_state \<times> bool) thrown_or"
where
  "disjunctiveSyllogism goalStr s e stc =
     (case e of
        EOr l r \<Rightarrow>
          (let notA = exprToStr (ENot l); notB = exprToStr (ENot r) in
           andThen
             (if mapHas (map' (fst stc)) notA
              then tryAdd goalStr r (DisjunctiveSyllogism s notA) [s, notA] stc
              else Inr stc)
             (\<lambda>stc1.
                if mapHas (map' (fst stc1)) notB
                then tryAdd goalStr l (DisjunctiveSyllogism s notB) [s, notB] stc1
                else Inr stc1))
      | _ \<Rightarrow> Inr stc)"

definition conjunctionIntroduction ::
  "expr \<Rightarrow> string \<Rightarrow> expr \<Rightarrow> expr \<Rightarrow> fc_state \<times> bool \<Rightarrow> (fc_state \<times> bool) thrown_or"
where
  "conjunctionIntroduction goalExpr goalStr e f stc =
     (case goalExpr of
        EAnd goalL goalR \<Rightarrow>
          (let aStr = exprToStr e; bStr = exprToStr f in
           if aStr \<noteq> bStr \<and> mapHas (map' (fst stc)) aStr \<and> mapHas (map' (fst stc)) bStr
           then
             if (aStr = exprToStr goalL \<and> bStr = exprToStr goalR) \<or>
                (bStr = exprToStr goalL \<and> aStr = exprToStr goalR)
             then tryAdd goalStr (EAnd e f) (ConjunctionIntroduction aStr bStr) [aStr, bStr] stc
             else Inr stc
           else Inr stc)
      | _ \<Rightarrow> Inr stc)"

text \<open>The body of \<^verbatim>\<open>for (const t of keys)\<close>, for the fact \<open>e\<close> with key \<open>s\<close>.\<close>

definition innerBody ::
  "expr \<Rightarrow> string \<Rightarrow> string \<Rightarrow> expr \<Rightarrow> string \<Rightarrow> fc_state \<times> bool
     \<Rightarrow> (fc_state \<times> bool) thrown_or"
where
  "innerBody goalExpr goalStr s e t stc =
     (if s = t then Inr stc
      else
        (case mapGet (map' (fst stc)) t of
           None \<Rightarrow> Inl (TypeErrorExn, fst stc)
         | Some en \<Rightarrow>
             (let f = expr en in
              andThen (implicationRules goalStr s t e f stc) (\<lambda>stc1.
              andThen (disjunctiveSyllogism goalStr s e stc1)
                (conjunctionIntroduction goalExpr goalStr e f)))))"

fun innerLoop ::
  "expr \<Rightarrow> string \<Rightarrow> string \<Rightarrow> expr \<Rightarrow> string list \<Rightarrow> fc_state \<times> bool
     \<Rightarrow> (fc_state \<times> bool) thrown_or"
where
  "innerLoop goalExpr goalStr s e [] stc = Inr stc"
| "innerLoop goalExpr goalStr s e (t # ts) stc =
     andThen (innerBody goalExpr goalStr s e t stc) (innerLoop goalExpr goalStr s e ts)"

text \<open>The body of \<^verbatim>\<open>for (const s of keys)\<close>.\<close>

definition outerBody ::
  "expr \<Rightarrow> string \<Rightarrow> string list \<Rightarrow> string \<Rightarrow> fc_state \<times> bool
     \<Rightarrow> (fc_state \<times> bool) thrown_or"
where
  "outerBody goalExpr goalStr keys s stc =
     (case mapGet (map' (fst stc)) s of
        None \<Rightarrow> Inl (TypeErrorExn, fst stc)
      | Some en \<Rightarrow>
          (let e = expr en in
           andThen (simplification goalStr s e stc)
             (innerLoop goalExpr goalStr s e keys)))"

fun outerLoop ::
  "expr \<Rightarrow> string \<Rightarrow> string list \<Rightarrow> string list \<Rightarrow> fc_state \<times> bool
     \<Rightarrow> (fc_state \<times> bool) thrown_or"
where
  "outerLoop goalExpr goalStr keys [] stc = Inr stc"
| "outerLoop goalExpr goalStr keys (s # ss) stc =
     andThen (outerBody goalExpr goalStr keys s stc) (outerLoop goalExpr goalStr keys ss)"

text \<open>
  One pass of the \<^verbatim>\<open>while\<close> body: \<^verbatim>\<open>changed = false\<close>, then both loops over the snapshot
  \<^verbatim>\<open>keys = Array.from(order)\<close>.
\<close>

definition pass :: "expr \<Rightarrow> string \<Rightarrow> fc_state \<Rightarrow> (fc_state \<times> bool) thrown_or" where
  "pass goalExpr goalStr st = outerLoop goalExpr goalStr (order st) (order st) (st, False)"

text \<open>
  \<^verbatim>\<open>while (changed && safety < 5000)\<close>. The loop is a partial function: no result would be
  \<open>None\<close>. It ends with the thrown value, or with the state, \<^verbatim>\<open>changed\<close> and \<^verbatim>\<open>safety\<close>.
\<close>

partial_function (option) whileLoop ::
  "expr \<Rightarrow> string \<Rightarrow> fc_state \<Rightarrow> bool \<Rightarrow> nat \<Rightarrow> ((fc_state \<times> bool \<times> nat) thrown_or) option"
where
  "whileLoop goalExpr goalStr st changed safety =
     (if changed \<and> safety < 5000 then
        (case pass goalExpr goalStr st of
           Inl x \<Rightarrow> Some (Inl x)
         | Inr (st', changed') \<Rightarrow> whileLoop goalExpr goalStr st' changed' (safety + 1))
      else Some (Inr (st, changed, safety)))"

declare whileLoop.simps [code]

text \<open>The two \<^verbatim>\<open>forEach\<close> calls of the initialisation, which stand before the \<^verbatim>\<open>try\<close>.\<close>

fun initPremises :: "string \<Rightarrow> expr list \<Rightarrow> nat \<Rightarrow> fc_state \<Rightarrow> fc_state thrown_or" where
  "initPremises goalStr [] idx st = Inr st"
| "initPremises goalStr (ex # exs) idx st =
     (case addExpr goalStr st ex (Premise (idx + 1)) [] of
        Inl x \<Rightarrow> Inl x
      | Inr (_, st') \<Rightarrow> initPremises goalStr exs (idx + 1) st')"

fun initAssumptions :: "string \<Rightarrow> expr list \<Rightarrow> fc_state \<Rightarrow> fc_state thrown_or" where
  "initAssumptions goalStr [] st = Inr st"
| "initAssumptions goalStr (ex # exs) st =
     (case addExpr goalStr st ex Assumption [] of
        Inl x \<Rightarrow> Inl x
      | Inr (_, st') \<Rightarrow> initAssumptions goalStr exs st')"

record proof_run =
  run_map :: "(string \<times> entry) list"
  run_order :: "string list"
  goalFound :: bool

text \<open>
  \<open>forwardChain\<close> returns \<open>Some (Inr run)\<close> when the source returns \<open>run\<close>, and
  \<open>Some (Inl x)\<close> when the exception \<open>x\<close> leaves the function: one thrown by the
  initialisation is not inside the \<^verbatim>\<open>try\<close>; inside it, \<^verbatim>\<open>{found: true}\<close> is caught and
  turned into a result and anything else is thrown again.
\<close>

definition forwardChain :: "expr list \<Rightarrow> expr \<Rightarrow> expr list \<Rightarrow> (exn + proof_run) option" where
  "forwardChain premiseExprs goalExpr extraAssumptions =
     (let goalStr = exprToStr goalExpr in
      case initPremises goalStr premiseExprs 0 \<lparr>map' = [], order = []\<rparr> of
        Inl (x, _) \<Rightarrow> Some (Inl x)
      | Inr st1 \<Rightarrow>
          (case initAssumptions goalStr extraAssumptions st1 of
             Inl (x, _) \<Rightarrow> Some (Inl x)
           | Inr st2 \<Rightarrow>
               (case whileLoop goalExpr goalStr st2 True 0 of
                  None \<Rightarrow> None
                | Some (Inl (FoundExn, st)) \<Rightarrow>
                    Some (Inr \<lparr>run_map = map' st, run_order = order st, goalFound = True\<rparr>)
                | Some (Inl (TypeErrorExn, st)) \<Rightarrow> Some (Inl TypeErrorExn)
                | Some (Inr (st, _, _)) \<Rightarrow>
                    Some (Inr \<lparr>run_map = map' st, run_order = order st,
                               goalFound = mapHas (map' st) goalStr\<rparr>))))"

section \<open>Proof orchestrator\<close>

text \<open>
  \<^verbatim>\<open>buildStepsHtmlFromMap\<close> numbers one line per key of \<^verbatim>\<open>order\<close> and, for an assumption
  run, appends the discharge line. The model keeps the title and the lines (number,
  formula text, reason) and leaves the markup around them out.
\<close>

datatype proof_title = DirectDerivation | ImpIntro

type_synonym proof_line = "nat \<times> string \<times> justification"

fun stepLines :: "(string \<times> entry) list \<Rightarrow> string list \<Rightarrow> nat \<Rightarrow> exn + proof_line list" where
  "stepLines m [] idx = Inr []"
| "stepLines m (s # ss) idx =
     (case mapGet m s of
        None \<Rightarrow> Inl TypeErrorExn
      | Some e \<Rightarrow>
          (case stepLines m ss (idx + 1) of
             Inl x \<Rightarrow> Inl x
           | Inr ls \<Rightarrow> Inr ((idx, s, reason e) # ls)))"

definition buildStepsHtmlFromMap ::
  "proof_run \<Rightarrow> proof_title \<Rightarrow> bool \<Rightarrow> string \<Rightarrow> string
     \<Rightarrow> exn + proof_title \<times> proof_line list"
where
  "buildStepsHtmlFromMap run title isAssumptionRun assumptionStr derivedStr =
     (case stepLines (run_map run) (run_order run) 1 of
        Inl x \<Rightarrow> Inl x
      | Inr ls \<Rightarrow>
          Inr (title,
               if isAssumptionRun
               then ls @ [(length (run_order run) + 1,
                           assumptionStr @ '' -> '' @ derivedStr, ImplicationIntroduction)]
               else ls))"

record attempt =
  derived :: bool
  html :: "(proof_title \<times> proof_line list) option"

definition attemptDeductionWithProof :: "expr list \<Rightarrow> expr \<Rightarrow> (exn + attempt) option" where
  "attemptDeductionWithProof premises goalExpr =
     (case forwardChain premises goalExpr [] of
        None \<Rightarrow> None
      | Some (Inl x) \<Rightarrow> Some (Inl x)
      | Some (Inr run) \<Rightarrow>
          if goalFound run then
            (case buildStepsHtmlFromMap run DirectDerivation False [] [] of
               Inl x \<Rightarrow> Some (Inl x)
             | Inr h \<Rightarrow> Some (Inr \<lparr>derived = True, html = Some h\<rparr>))
          else
            (case goalExpr of
               EImp A B \<Rightarrow>
                 (case forwardChain premises B [A] of
                    None \<Rightarrow> None
                  | Some (Inl x) \<Rightarrow> Some (Inl x)
                  | Some (Inr run2) \<Rightarrow>
                      if goalFound run2 then
                        (case buildStepsHtmlFromMap run2 ImpIntro True (exprToStr A) (exprToStr B) of
                           Inl x \<Rightarrow> Some (Inl x)
                         | Inr h \<Rightarrow> Some (Inr \<lparr>derived = True, html = Some h\<rparr>))
                      else Some (Inr \<lparr>derived = False, html = None\<rparr>))
             | _ \<Rightarrow> Some (Inr \<lparr>derived = False, html = None\<rparr>)))"

section \<open>Truth-table checker\<close>

text \<open>
  The part of \<^verbatim>\<open>solve\<close> between parsing and rendering. \<^verbatim>\<open>vars\<close> is a \<^verbatim>\<open>Set\<close>, which keeps
  its members in insertion order; \<^verbatim>\<open>[...vars]\<close> lists them in that order.
\<close>

definition setAdd :: "string \<Rightarrow> string list \<Rightarrow> string list" where
  "setAdd v vars = (if v \<in> set vars then vars else vars @ [v])"

fun collectVars :: "expr \<Rightarrow> string list \<Rightarrow> string list" where
  "collectVars (EVar name) vars = setAdd name vars"
| "collectVars (ENot e) vars = collectVars e vars"
| "collectVars (EAnd l r) vars = collectVars r (collectVars l vars)"
| "collectVars (EOr l r) vars = collectVars r (collectVars l vars)"
| "collectVars (EImp l r) vars = collectVars r (collectVars l vars)"

definition varListOf :: "expr list \<Rightarrow> expr \<Rightarrow> string list" where
  "varListOf premiseExprs conclusionExpr =
     collectVars conclusionExpr (foldl (\<lambda>vars p. collectVars p vars) [] premiseExprs)"

text \<open>
  \<^verbatim>\<open><<\<close> and \<^verbatim>\<open>&\<close> work on 32-bit signed integers: the operands are reduced modulo \<open>2^32\<close>,
  the shift count modulo 32, and the result is read as a signed value.
\<close>

definition shl32 :: "int \<Rightarrow> nat \<Rightarrow> int" where
  "shl32 a n = sint (push_bit (n mod 32) (word_of_int a :: 32 word))"

definition and32 :: "int \<Rightarrow> int \<Rightarrow> int" where
  "and32 a b = sint ((word_of_int a :: 32 word) AND word_of_int b)"

text \<open>\<^verbatim>\<open>varList.forEach((v, i) => assignment[v] = Boolean(mask & (1 << i)))\<close> from index \<open>i\<close> on.\<close>

fun assignVars :: "string list \<Rightarrow> nat \<Rightarrow> int \<Rightarrow> assignment \<Rightarrow> assignment" where
  "assignVars [] i msk a = a"
| "assignVars (v # vs) i msk a =
     assignVars vs (i + 1) msk (setProp a v (and32 msk (shl32 1 i) \<noteq> 0))"

definition makeAssignment :: "string list \<Rightarrow> int \<Rightarrow> assignment" where
  "makeAssignment varList msk = assignVars varList 0 msk Map.empty"

record truth_row =
  row_assignment :: assignment
  premisesTrue :: bool
  conclusionTrue :: bool

record truth_state =
  valid :: bool
  consistent :: bool
  truthTable :: "truth_row list"

definition truthStep :: "string list \<Rightarrow> expr list \<Rightarrow> expr \<Rightarrow> int \<Rightarrow> truth_state \<Rightarrow> truth_state" where
  "truthStep varList premiseExprs conclusionExpr msk st =
     (let a = makeAssignment varList msk;
          pt = list_all (\<lambda>p. evalExpr p a) premiseExprs;
          ct = evalExpr conclusionExpr a
      in \<lparr>valid = (if pt \<and> \<not> ct then False else valid st),
          consistent = (if pt then True else consistent st),
          truthTable = truthTable st @
            [\<lparr>row_assignment = a, premisesTrue = pt, conclusionTrue = ct\<rparr>]\<rparr>)"

text \<open>\<^verbatim>\<open>for (let mask = 0; mask < total; mask++)\<close>, entered with the current \<^verbatim>\<open>mask\<close> as \<open>msk\<close>.\<close>

function truthLoop ::
  "string list \<Rightarrow> expr list \<Rightarrow> expr \<Rightarrow> int \<Rightarrow> int \<Rightarrow> truth_state \<Rightarrow> truth_state"
where
  "truthLoop varList premiseExprs conclusionExpr total' msk st =
     (if msk < total'
      then truthLoop varList premiseExprs conclusionExpr total' (msk + 1)
             (truthStep varList premiseExprs conclusionExpr msk st)
      else st)"
  by pat_completeness auto

termination
  by (relation "measure (\<lambda>(varList, premiseExprs, conclusionExpr, total', msk, st).
        nat (total' - msk))") auto

declare truthLoop.simps [simp del]

datatype verdict = Inconsistent | Valid | Invalid

definition truthTableOf :: "expr list \<Rightarrow> expr \<Rightarrow> truth_state" where
  "truthTableOf premiseExprs conclusionExpr =
     (let varList = varListOf premiseExprs conclusionExpr;
          total' = shl32 1 (length varList)
      in truthLoop varList premiseExprs conclusionExpr total' 0
           \<lparr>valid = True, consistent = False, truthTable = []\<rparr>)"

definition solveVerdict :: "expr list \<Rightarrow> expr \<Rightarrow> verdict" where
  "solveVerdict premiseExprs conclusionExpr =
     (let st = truthTableOf premiseExprs conclusionExpr in
      if \<not> consistent st then Inconsistent
      else if valid st then Valid
      else Invalid)"

section \<open>Well-formed trees\<close>

text \<open>
  The data model's invariant on variable names (\<open>isVarName\<close>): a name is a token of the
  tokenizer that is no operator and no parenthesis, that is, a non-empty string without
  white space, parenthesis, \<^verbatim>\<open>~\<close>, \<^verbatim>\<open>&\<close>, \<^verbatim>\<open>|\<close> and without the digraph \<^verbatim>\<open>->\<close>.
  \<^verbatim>\<open>parsePrimary\<close> also makes a variable of the tokens \<^verbatim>\<open>)\<close>, \<^verbatim>\<open>&\<close>, \<^verbatim>\<open>|\<close> and \<^verbatim>\<open>->\<close>, so the trees
  that exist at run time have names in \<open>isOperandToken\<close>; a tree is \<open>wellFormed\<close> when
  all its names are. Every tree of the data model (\<open>dataModelTree\<close>) is well-formed.
\<close>

fun hasArrow :: "string \<Rightarrow> bool" where
  "hasArrow [] = False"
| "hasArrow [c] = False"
| "hasArrow (c # d # cs) = ((c = CHR ''-'' \<and> d = CHR ''>'') \<or> hasArrow (d # cs))"

definition isNameChar :: "char \<Rightarrow> bool" where
  "isNameChar c = (\<not> isSpace c \<and> c \<notin> {CHR ''('', CHR '')'', CHR ''~'', CHR ''&'', CHR ''|''})"

definition isVarName :: "string \<Rightarrow> bool" where
  "isVarName n = (n \<noteq> [] \<and> list_all isNameChar n \<and> \<not> hasArrow n)"

definition isOperandToken :: "string \<Rightarrow> bool" where
  "isOperandToken n = (isVarName n \<or> n \<in> {'')'', ''&'', ''|'', ''->''})"

fun wellFormed :: "expr \<Rightarrow> bool" where
  "wellFormed (EVar n) = isOperandToken n"
| "wellFormed (ENot e) = wellFormed e"
| "wellFormed (EAnd l r) = (wellFormed l \<and> wellFormed r)"
| "wellFormed (EOr l r) = (wellFormed l \<and> wellFormed r)"
| "wellFormed (EImp l r) = (wellFormed l \<and> wellFormed r)"

fun dataModelTree :: "expr \<Rightarrow> bool" where
  "dataModelTree (EVar n) = isVarName n"
| "dataModelTree (ENot e) = dataModelTree e"
| "dataModelTree (EAnd l r) = (dataModelTree l \<and> dataModelTree r)"
| "dataModelTree (EOr l r) = (dataModelTree l \<and> dataModelTree r)"
| "dataModelTree (EImp l r) = (dataModelTree l \<and> dataModelTree r)"

text \<open>The tokens of the canonical rendering, and what may follow a rendering in a string.\<close>

fun exprTokens :: "expr \<Rightarrow> string list" where
  "exprTokens (EVar n) = [n]"
| "exprTokens (ENot inner) =
     (case inner of
        EVar _ \<Rightarrow> ''~'' # exprTokens inner
      | _ \<Rightarrow> [''~'', ''(''] @ exprTokens inner @ ['')''])"
| "exprTokens (EAnd l r) = [''(''] @ exprTokens l @ [''&''] @ exprTokens r @ ['')'']"
| "exprTokens (EOr l r) = [''(''] @ exprTokens l @ [''|''] @ exprTokens r @ ['')'']"
| "exprTokens (EImp l r) = [''(''] @ exprTokens l @ [''->''] @ exprTokens r @ ['')'']"

definition delimited :: "string \<Rightarrow> bool" where
  "delimited r = (r = [] \<or> hd r = CHR '' '' \<or> hd r = CHR '')'')"

section \<open>Variables in order of appearance\<close>

text \<open>
  The variables of a tree from left to right, and a list cut down to the first occurrence
  of each of its members: the order in which a \<^verbatim>\<open>Set\<close> keeps what \<^verbatim>\<open>collectVars\<close> adds.
\<close>

fun exprVars :: "expr \<Rightarrow> string list" where
  "exprVars (EVar name) = [name]"
| "exprVars (ENot e) = exprVars e"
| "exprVars (EAnd l r) = exprVars l @ exprVars r"
| "exprVars (EOr l r) = exprVars l @ exprVars r"
| "exprVars (EImp l r) = exprVars l @ exprVars r"

definition firstOccurrences :: "string list \<Rightarrow> string list" where
  "firstOccurrences xs = rev (remdups (rev xs))"

text \<open>The row that the truth-table loop builds for the mask \<open>m\<close>.\<close>

definition rowOf :: "string list \<Rightarrow> expr list \<Rightarrow> expr \<Rightarrow> nat \<Rightarrow> truth_row" where
  "rowOf vs ps c m =
     \<lparr>row_assignment = makeAssignment vs (int m),
      premisesTrue = list_all (\<lambda>p. evalExpr p (makeAssignment vs (int m))) ps,
      conclusionTrue = evalExpr c (makeAssignment vs (int m))\<rparr>"

text \<open>A disjunction over 31 distinct variables, \<^verbatim>\<open>a | (b | ... (E | a))\<close>.\<close>

definition manyVars :: "string list" where
  "manyVars = map (\<lambda>ch. [ch]) ''abcdefghijklmnopqrstuvwxyzABCDE''"

definition manyVarsDisjunction :: expr where
  "manyVarsDisjunction = foldr (\<lambda>v e. EOr (EVar v) e) manyVars (EVar ''a'')"

section \<open>The grammar and its derivations\<close>

text \<open>
  The grammar that the parser is written after, as the comment in \<^verbatim>\<open>parseFromString\<close> gives it:
  \<^verbatim>\<open>implication := orExpr ( '->' implication )?\<close>,
  \<^verbatim>\<open>orExpr := andExpr ( '|' andExpr )*\<close>,
  \<^verbatim>\<open>andExpr := notExpr ( '&' notExpr )*\<close>,
  \<^verbatim>\<open>notExpr := '~' notExpr | primary\<close>,
  \<^verbatim>\<open>primary := VAR | '(' implication ')'\<close>.
  A value of the types below is a derivation: one constructor for each alternative, the
  repetitions nested to the left. A derivation has the tokens it derives and the tree it
  stands for: \<^verbatim>\<open>->\<close> builds \<open>EImp\<close> with the rest of the implication as right operand,
  \<^verbatim>\<open>|\<close> and \<^verbatim>\<open>&\<close> build \<open>EOr\<close> and \<open>EAnd\<close> with everything to their left as left operand,
  \<^verbatim>\<open>~\<close> builds \<open>ENot\<close>, and parentheses build nothing. A derivation is valid when every
  VAR is a variable name of the data model.
\<close>

datatype implication = ImpDisjunction disjunction | ImpArrow disjunction implication
  and disjunction = DisjConjunction conjunction | DisjBar disjunction conjunction
  and conjunction = ConjNegation negation | ConjAmp conjunction negation
  and negation = NegTilde negation | NegPrimary primary
  and primary = PrimVar string | PrimParen implication

primrec implicationTokens :: "implication \<Rightarrow> string list"
  and disjunctionTokens :: "disjunction \<Rightarrow> string list"
  and conjunctionTokens :: "conjunction \<Rightarrow> string list"
  and negationTokens :: "negation \<Rightarrow> string list"
  and primaryTokens :: "primary \<Rightarrow> string list"
where
  "implicationTokens (ImpDisjunction d) = disjunctionTokens d"
| "implicationTokens (ImpArrow d i) = disjunctionTokens d @ ''->'' # implicationTokens i"
| "disjunctionTokens (DisjConjunction c) = conjunctionTokens c"
| "disjunctionTokens (DisjBar d c) = disjunctionTokens d @ ''|'' # conjunctionTokens c"
| "conjunctionTokens (ConjNegation n) = negationTokens n"
| "conjunctionTokens (ConjAmp c n) = conjunctionTokens c @ ''&'' # negationTokens n"
| "negationTokens (NegTilde n) = ''~'' # negationTokens n"
| "negationTokens (NegPrimary p) = primaryTokens p"
| "primaryTokens (PrimVar name) = [name]"
| "primaryTokens (PrimParen i) = ''('' # implicationTokens i @ ['')'']"

primrec implicationTree :: "implication \<Rightarrow> expr"
  and disjunctionTree :: "disjunction \<Rightarrow> expr"
  and conjunctionTree :: "conjunction \<Rightarrow> expr"
  and negationTree :: "negation \<Rightarrow> expr"
  and primaryTree :: "primary \<Rightarrow> expr"
where
  "implicationTree (ImpDisjunction d) = disjunctionTree d"
| "implicationTree (ImpArrow d i) = EImp (disjunctionTree d) (implicationTree i)"
| "disjunctionTree (DisjConjunction c) = conjunctionTree c"
| "disjunctionTree (DisjBar d c) = EOr (disjunctionTree d) (conjunctionTree c)"
| "conjunctionTree (ConjNegation n) = negationTree n"
| "conjunctionTree (ConjAmp c n) = EAnd (conjunctionTree c) (negationTree n)"
| "negationTree (NegTilde n) = ENot (negationTree n)"
| "negationTree (NegPrimary p) = primaryTree p"
| "primaryTree (PrimVar name) = EVar name"
| "primaryTree (PrimParen i) = implicationTree i"

primrec validImplication :: "implication \<Rightarrow> bool"
  and validDisjunction :: "disjunction \<Rightarrow> bool"
  and validConjunction :: "conjunction \<Rightarrow> bool"
  and validNegation :: "negation \<Rightarrow> bool"
  and validPrimary :: "primary \<Rightarrow> bool"
where
  "validImplication (ImpDisjunction d) = validDisjunction d"
| "validImplication (ImpArrow d i) = (validDisjunction d \<and> validImplication i)"
| "validDisjunction (DisjConjunction c) = validConjunction c"
| "validDisjunction (DisjBar d c) = (validDisjunction d \<and> validConjunction c)"
| "validConjunction (ConjNegation n) = validNegation n"
| "validConjunction (ConjAmp c n) = (validConjunction c \<and> validNegation n)"
| "validNegation (NegTilde n) = validNegation n"
| "validNegation (NegPrimary p) = validPrimary p"
| "validPrimary (PrimVar name) = isVarName name"
| "validPrimary (PrimParen i) = validImplication i"

text \<open>
  The tokens written out as a string: \<open>gaps\<close> gives the white space before each token, in
  order, and what is left of it follows the last token; a missing gap is empty.
\<close>

fun spaced :: "string list \<Rightarrow> string list \<Rightarrow> string" where
  "spaced gaps [] = concat gaps"
| "spaced [] (t # ts) = t @ spaced [] ts"
| "spaced (g # gaps) (t # ts) = g @ t @ spaced gaps ts"

text \<open>
  Token lists that the tokenizer can find again whatever the gaps: every token is a variable
  name or an operator or parenthesis, and a variable name is followed by an operator or a
  parenthesis. \<open>boundary r\<close> holds of a string in front of which a variable name ends.
\<close>

definition isSpecial :: "string \<Rightarrow> bool" where
  "isSpecial t = (t \<in> {''('', '')'', ''~'', ''&'', ''|'', ''->''})"

fun separable :: "string list \<Rightarrow> bool" where
  "separable [] = True"
| "separable [t] = (isVarName t \<or> isSpecial t)"
| "separable (t # u # ts) =
     ((isSpecial t \<or> (isVarName t \<and> isSpecial u)) \<and> separable (u # ts))"

definition boundary :: "string \<Rightarrow> bool" where
  "boundary r =
     (r = [] \<or> isSpace (hd r) \<or> hd r \<in> {CHR ''('', CHR '')'', CHR ''~'', CHR ''&'', CHR ''|''}
      \<or> take 2 r = ''->'')"

section \<open>Notions used in the statements and proofs\<close>

text \<open>
  The engine's invariant: every key of a snapshot, and every key of \<^verbatim>\<open>order\<close>, is a key of
  \<^verbatim>\<open>map\<close>, so that \<^verbatim>\<open>map.get\<close> never misses.
\<close>

definition keysPresent :: "string list \<Rightarrow> fc_state \<Rightarrow> bool" where
  "keysPresent keys st = list_all (mapHas (map' st)) keys"

definition engineInv :: "string list \<Rightarrow> fc_state \<Rightarrow> bool" where
  "engineInv keys st = (keysPresent keys st \<and> keysPresent (order st) st)"

definition okResult :: "(fc_state \<Rightarrow> bool) \<Rightarrow> (fc_state \<times> bool) thrown_or \<Rightarrow> bool" where
  "okResult P r = (case r of Inl (x, st) \<Rightarrow> x = FoundExn \<and> P st | Inr (st, _) \<Rightarrow> P st)"

section \<open>The parser's recursion\<close>

text \<open>Every successful parse consumes a token, so the length tests in the parser always hold.\<close>

lemma parse_length:
  "parseImplication ts = Inr (e, r) \<Longrightarrow> length r < length ts"
  "parseOr ts = Inr (e, r) \<Longrightarrow> length r < length ts"
  "parseOrLoop node ts2 = Inr (e, r) \<Longrightarrow> length r \<le> length ts2"
  "parseAnd ts = Inr (e, r) \<Longrightarrow> length r < length ts"
  "parseAndLoop node ts2 = Inr (e, r) \<Longrightarrow> length r \<le> length ts2"
  "parseNot ts = Inr (e, r) \<Longrightarrow> length r < length ts"
  "parsePrimary ts = Inr (e, r) \<Longrightarrow> length r < length ts"
proof (induction ts and ts and node ts2 and ts and node ts2 and ts and ts
    arbitrary: e r and e r and e r and e r and e r and e r and e r
    rule: parseImplication_parseOr_parseOrLoop_parseAnd_parseAndLoop_parseNot_parsePrimary.induct)
  case (1 ts)
  from "1.prems" show ?case
    apply (subst (asm) parseImplication.simps)
    apply (auto split: sum.splits list.splits if_splits prod.splits)
    using "1.IH" apply fastforce+
    done
next
  case (2 ts)
  from "2.prems" show ?case
    apply (subst (asm) parseOr.simps)
    apply (auto split: sum.splits list.splits if_splits prod.splits)
    using "2.IH" apply fastforce+
    done
next
  case (3 node)
  then show ?case by simp
next
  case (4 node t rest)
  from "4.prems" show ?case
    apply (auto split: sum.splits list.splits if_splits prod.splits)
    using "4.IH" apply fastforce+
    done
next
  case (5 ts)
  from "5.prems" show ?case
    apply (subst (asm) parseAnd.simps)
    apply (auto split: sum.splits list.splits if_splits prod.splits)
    using "5.IH" apply fastforce+
    done
next
  case (6 node)
  then show ?case by simp
next
  case (7 node t rest)
  from "7.prems" show ?case
    apply (auto split: sum.splits list.splits if_splits prod.splits)
    using "7.IH" apply fastforce+
    done
next
  case 8
  then show ?case by simp
next
  case (9 t rest)
  from "9.prems" show ?case
    apply (auto split: sum.splits list.splits if_splits prod.splits)
    using "9.IH" apply fastforce+
    done
next
  case 10
  then show ?case by simp
next
  case (11 t rest)
  from "11.prems" show ?case
    apply (auto split: sum.splits list.splits if_splits prod.splits)
    using "11.IH" apply fastforce+
    done
qed

text \<open>So the parser satisfies the equations of the source, without the length tests.\<close>

lemma parseImplication_unfold:
  "parseImplication ts =
     (case parseOr ts of
        Inl err \<Rightarrow> Inl err
      | Inr (left, rest) \<Rightarrow>
          (case rest of
             [] \<Rightarrow> Inr (left, rest)
           | t # rest' \<Rightarrow>
               if t = ''->'' then
                 (case parseImplication rest' of
                    Inl err \<Rightarrow> Inl err
                  | Inr (right, rest'') \<Rightarrow> Inr (EImp left right, rest''))
               else Inr (left, rest)))"
  by (subst parseImplication.simps)
     (auto split: sum.splits list.splits prod.splits dest: parse_length(2))

lemma parseOr_unfold:
  "parseOr ts =
     (case parseAnd ts of Inl err \<Rightarrow> Inl err | Inr (node, rest) \<Rightarrow> parseOrLoop node rest)"
  by (subst parseOr.simps)
     (auto split: sum.splits list.splits prod.splits dest: parse_length(4))

lemma parseOrLoop_unfold:
  "parseOrLoop node (t # rest) =
     (if t = ''|'' then
        (case parseAnd rest of
           Inl err \<Rightarrow> Inl err
         | Inr (right, rest') \<Rightarrow> parseOrLoop (EOr node right) rest')
      else Inr (node, t # rest))"
  by (auto split: sum.splits list.splits prod.splits dest: parse_length(4))

lemma parseAnd_unfold:
  "parseAnd ts =
     (case parseNot ts of Inl err \<Rightarrow> Inl err | Inr (node, rest) \<Rightarrow> parseAndLoop node rest)"
  by (subst parseAnd.simps)
     (auto split: sum.splits list.splits prod.splits dest: parse_length(6))

lemma parseAndLoop_unfold:
  "parseAndLoop node (t # rest) =
     (if t = ''&'' then
        (case parseNot rest of
           Inl err \<Rightarrow> Inl err
         | Inr (right, rest') \<Rightarrow> parseAndLoop (EAnd node right) rest')
      else Inr (node, t # rest))"
  by (auto split: sum.splits list.splits prod.splits dest: parse_length(6))

section \<open>Tokens of a canonical rendering\<close>

text \<open>
  The tokenizer splits the rendering of a well-formed tree into the tokens \<open>exprTokens\<close>
  lists, whatever follows the rendering, as long as that starts with a blank or a closing
  parenthesis.
\<close>

lemma replaceArrow_Cons: "c \<noteq> CHR ''-'' \<Longrightarrow> replaceArrow (c # r) = c # replaceArrow r"
  by (cases r) simp_all

lemma replaceArrow_name:
  "\<not> hasArrow n \<Longrightarrow> r = [] \<or> hd r \<noteq> CHR ''>'' \<Longrightarrow> replaceArrow (n @ r) = n @ replaceArrow r"
proof (induction n rule: hasArrow.induct)
  case 1
  then show ?case by simp
next
  case (2 c)
  then show ?case by (cases r) auto
next
  case (3 c d cs)
  then show ?case by auto
qed

lemma replaceChar_append: "replaceChar x (a @ b) = replaceChar x a @ replaceChar x b"
  by (induction a) simp_all

lemma replaceChar_name: "x \<notin> set n \<Longrightarrow> replaceChar x n = n"
  by (induction n) auto

lemma padOperators_name:
  assumes "isVarName n" and "r = [] \<or> hd r \<noteq> CHR ''>''"
  shows "padOperators (n @ r) = n @ padOperators r"
proof -
  from assms(1) have chars: "CHR ''('' \<notin> set n" "CHR '')'' \<notin> set n" "CHR ''~'' \<notin> set n"
      "CHR ''&'' \<notin> set n" "CHR ''|'' \<notin> set n"
    by (auto simp: isVarName_def isNameChar_def list_all_iff)
  from assms have "replaceArrow (n @ r) = n @ replaceArrow r"
    by (simp add: replaceArrow_name isVarName_def)
  with chars show ?thesis
    by (simp add: padOperators_def replaceChar_append replaceChar_name)
qed

lemma padOperators_simps:
  "padOperators [] = []"
  "padOperators (CHR ''('' # r) = '' ( '' @ padOperators r"
  "padOperators (CHR '')'' # r) = '' ) '' @ padOperators r"
  "padOperators (CHR ''~'' # r) = '' ~ '' @ padOperators r"
  "padOperators (CHR '' '' # r) = CHR '' '' # padOperators r"
  "padOperators (CHR ''&'' # r) = '' & '' @ padOperators r"
  "padOperators (CHR ''|'' # r) = '' | '' @ padOperators r"
  "padOperators (CHR ''-'' # CHR ''>'' # r) = '' -> '' @ padOperators r"
  by (simp_all add: padOperators_def replaceArrow_Cons)

lemma splitWs_name: "list_all isNameChar n \<Longrightarrow> splitWs acc (n @ y) = splitWs (acc @ n) y"
  by (induction n arbitrary: acc) (auto simp: isNameChar_def)

lemma splitWs_end:
  "acc \<noteq> [] \<Longrightarrow> y = [] \<or> hd y = CHR '' '' \<Longrightarrow> splitWs acc y = acc # splitWs [] y"
  by (cases y) (auto simp: isSpace_def)

lemma padOperators_delimited:
  "delimited r \<Longrightarrow> padOperators r = [] \<or> hd (padOperators r) = CHR '' ''"
  by (cases r) (auto simp: delimited_def padOperators_simps)

lemma delimited_not_gt: "delimited r \<Longrightarrow> r = [] \<or> hd r \<noteq> CHR ''>''"
  by (auto simp: delimited_def)

lemma tokenize_name:
  assumes "isVarName n" and "delimited r"
  shows "tokenize (n @ r) = n # tokenize r"
proof -
  from assms have "padOperators (n @ r) = n @ padOperators r"
    by (simp add: padOperators_name delimited_not_gt)
  moreover from assms(1) have "list_all isNameChar n" and "n \<noteq> []"
    by (simp_all add: isVarName_def)
  ultimately show ?thesis
    using padOperators_delimited [OF assms(2)]
    by (simp add: tokenize_def splitWs_name splitWs_end)
qed

lemma tokenize_simps:
  "tokenize [] = []"
  "tokenize (CHR ''('' # r) = ''('' # tokenize r"
  "tokenize (CHR '')'' # r) = '')'' # tokenize r"
  "tokenize (CHR ''~'' # r) = ''~'' # tokenize r"
  "tokenize (CHR '' '' # r) = tokenize r"
  "tokenize (CHR ''&'' # r) = ''&'' # tokenize r"
  "tokenize (CHR ''|'' # r) = ''|'' # tokenize r"
  "tokenize (CHR ''-'' # CHR ''>'' # r) = ''->'' # tokenize r"
  by (simp_all add: tokenize_def padOperators_simps isSpace_def)

lemma tokenize_operand:
  assumes "isOperandToken n" and "delimited r"
  shows "tokenize (n @ r) = n # tokenize r"
  using assms by (auto simp: isOperandToken_def tokenize_name tokenize_simps)

lemma delimited_simps:
  "delimited []" "delimited (CHR '')'' # r)" "delimited (CHR '' '' # r)"
  by (simp_all add: delimited_def)

lemma tokenize_exprToStr:
  "wellFormed t \<Longrightarrow> delimited r \<Longrightarrow> tokenize (exprToStr t @ r) = exprTokens t @ tokenize r"
proof (induction t arbitrary: r)
  case (EVar n)
  then show ?case by (simp add: tokenize_operand)
next
  case (ENot t)
  show ?case
  proof (cases t)
    case (EVar n)
    with ENot.prems show ?thesis by (simp add: tokenize_simps tokenize_operand)
  next
    case (ENot u)
    with ENot.prems ENot.IH [of "CHR '')'' # r"] show ?thesis
      by (simp add: tokenize_simps delimited_simps)
  next
    case (EAnd u v)
    with ENot.prems ENot.IH [of "CHR '')'' # r"] show ?thesis
      by (simp add: tokenize_simps delimited_simps)
  next
    case (EOr u v)
    with ENot.prems ENot.IH [of "CHR '')'' # r"] show ?thesis
      by (simp add: tokenize_simps delimited_simps)
  next
    case (EImp u v)
    with ENot.prems ENot.IH [of "CHR '')'' # r"] show ?thesis
      by (simp add: tokenize_simps delimited_simps)
  qed
next
  case (EAnd t1 t2)
  from EAnd.prems EAnd.IH(2) [of "CHR '')'' # r"]
  have r: "tokenize (exprToStr t2 @ CHR '')'' # r) = exprTokens t2 @ '')'' # tokenize r"
    by (simp add: tokenize_simps delimited_simps)
  from EAnd.prems EAnd.IH(1) [of "'' & '' @ exprToStr t2 @ CHR '')'' # r"]
  have "tokenize (exprToStr t1 @ '' & '' @ exprToStr t2 @ CHR '')'' # r) =
        exprTokens t1 @ ''&'' # tokenize (exprToStr t2 @ CHR '')'' # r)"
    by (simp add: delimited_def tokenize_simps)
  with r show ?case by (simp add: tokenize_simps)
next
  case (EOr t1 t2)
  from EOr.prems EOr.IH(2) [of "CHR '')'' # r"]
  have r: "tokenize (exprToStr t2 @ CHR '')'' # r) = exprTokens t2 @ '')'' # tokenize r"
    by (simp add: tokenize_simps delimited_simps)
  from EOr.prems EOr.IH(1) [of "'' | '' @ exprToStr t2 @ CHR '')'' # r"]
  have "tokenize (exprToStr t1 @ '' | '' @ exprToStr t2 @ CHR '')'' # r) =
        exprTokens t1 @ ''|'' # tokenize (exprToStr t2 @ CHR '')'' # r)"
    by (simp add: delimited_def tokenize_simps)
  with r show ?case by (simp add: tokenize_simps)
next
  case (EImp t1 t2)
  from EImp.prems EImp.IH(2) [of "CHR '')'' # r"]
  have r: "tokenize (exprToStr t2 @ CHR '')'' # r) = exprTokens t2 @ '')'' # tokenize r"
    by (simp add: tokenize_simps delimited_simps)
  from EImp.prems EImp.IH(1) [of "'' -> '' @ exprToStr t2 @ CHR '')'' # r"]
  have "tokenize (exprToStr t1 @ '' -> '' @ exprToStr t2 @ CHR '')'' # r) =
        exprTokens t1 @ ''->'' # tokenize (exprToStr t2 @ CHR '')'' # r)"
    by (simp add: delimited_def tokenize_simps)
  with r show ?case by (simp add: tokenize_simps)
qed

section \<open>Parsing the tokens of a canonical rendering\<close>

declare parseOrLoop.simps(2) [simp del] parseAndLoop.simps(2) [simp del]

lemmas parse_unfold =
  parseImplication_unfold parseOr_unfold parseOrLoop_unfold parseAnd_unfold parseAndLoop_unfold

lemma parseImplication_atom_close:
  "parseNot ts = Inr (e, '')'' # rest) \<Longrightarrow> parseImplication ts = Inr (e, '')'' # rest)"
  by (simp add: parse_unfold)

lemma parseImplication_atom_end:
  "parseNot ts = Inr (e, []) \<Longrightarrow> parseImplication ts = Inr (e, [])"
  by (simp add: parse_unfold)

lemma parseImplication_and:
  "parseNot ts = Inr (l, ''&'' # ts') \<Longrightarrow> parseNot ts' = Inr (r, '')'' # rest) \<Longrightarrow>
   parseImplication ts = Inr (EAnd l r, '')'' # rest)"
  by (simp add: parse_unfold)

lemma parseImplication_or:
  "parseNot ts = Inr (l, ''|'' # ts') \<Longrightarrow> parseNot ts' = Inr (r, '')'' # rest) \<Longrightarrow>
   parseImplication ts = Inr (EOr l r, '')'' # rest)"
  by (simp add: parse_unfold)

lemma parseImplication_imp:
  "parseNot ts = Inr (l, ''->'' # ts') \<Longrightarrow> parseNot ts' = Inr (r, '')'' # rest) \<Longrightarrow>
   parseImplication ts = Inr (EImp l r, '')'' # rest)"
  by (simp add: parse_unfold)

lemma isOperandToken_not_special:
  "isOperandToken n \<Longrightarrow> n \<noteq> [] \<and> n \<noteq> ''~'' \<and> n \<noteq> ''(''"
  by (auto simp: isOperandToken_def isVarName_def isNameChar_def)

lemma parseNot_group:
  "parseImplication ts = Inr (e, '')'' # rest) \<Longrightarrow> parseNot (''('' # ts) = Inr (e, rest)"
  by simp

lemma parseNot_exprTokens:
  "wellFormed t \<Longrightarrow> parseNot (exprTokens t @ rest) = Inr (t, rest)"
proof (induction t arbitrary: rest)
  case (EVar n)
  then show ?case using isOperandToken_not_special [of n] by simp
next
  case (ENot t)
  show ?case
  proof (cases t)
    case (EVar n)
    with ENot.prems show ?thesis using isOperandToken_not_special [of n] by simp
  next
    case (ENot u)
    from ENot.prems ENot.IH [of "'')'' # rest"]
    have "parseNot (''('' # exprTokens t @ '')'' # rest) = Inr (t, rest)"
      by (intro parseNot_group parseImplication_atom_close) simp
    with ENot show ?thesis by simp
  next
    case (EAnd u v)
    from ENot.prems ENot.IH [of "'')'' # rest"]
    have "parseNot (''('' # exprTokens t @ '')'' # rest) = Inr (t, rest)"
      by (intro parseNot_group parseImplication_atom_close) simp
    with EAnd show ?thesis by simp
  next
    case (EOr u v)
    from ENot.prems ENot.IH [of "'')'' # rest"]
    have "parseNot (''('' # exprTokens t @ '')'' # rest) = Inr (t, rest)"
      by (intro parseNot_group parseImplication_atom_close) simp
    with EOr show ?thesis by simp
  next
    case (EImp u v)
    from ENot.prems ENot.IH [of "'')'' # rest"]
    have "parseNot (''('' # exprTokens t @ '')'' # rest) = Inr (t, rest)"
      by (intro parseNot_group parseImplication_atom_close) simp
    with EImp show ?thesis by simp
  qed
next
  case (EAnd t1 t2)
  from EAnd.prems EAnd.IH(1) [of "''&'' # exprTokens t2 @ '')'' # rest"]
    EAnd.IH(2) [of "'')'' # rest"]
  have "parseImplication (exprTokens t1 @ ''&'' # exprTokens t2 @ '')'' # rest) =
        Inr (EAnd t1 t2, '')'' # rest)"
    by (intro parseImplication_and) simp_all
  then show ?case by simp
next
  case (EOr t1 t2)
  from EOr.prems EOr.IH(1) [of "''|'' # exprTokens t2 @ '')'' # rest"]
    EOr.IH(2) [of "'')'' # rest"]
  have "parseImplication (exprTokens t1 @ ''|'' # exprTokens t2 @ '')'' # rest) =
        Inr (EOr t1 t2, '')'' # rest)"
    by (intro parseImplication_or) simp_all
  then show ?case by simp
next
  case (EImp t1 t2)
  from EImp.prems EImp.IH(1) [of "''->'' # exprTokens t2 @ '')'' # rest"]
    EImp.IH(2) [of "'')'' # rest"]
  have "parseImplication (exprTokens t1 @ ''->'' # exprTokens t2 @ '')'' # rest) =
        Inr (EImp t1 t2, '')'' # rest)"
    by (intro parseImplication_imp) simp_all
  then show ?case by simp
qed

lemma parseFromString_exprToStr: "wellFormed t \<Longrightarrow> parseFromString (exprToStr t) = Inr t"
proof -
  assume wf: "wellFormed t"
  from tokenize_exprToStr [OF wf, of "[]"]
  have "tokenize (exprToStr t) = exprTokens t"
    by (simp add: delimited_simps tokenize_simps)
  moreover from parseNot_exprTokens [OF wf, of "[]"]
  have "parseImplication (exprTokens t) = Inr (t, [])"
    by (intro parseImplication_atom_end) simp
  ultimately show ?thesis by (simp add: parseFromString_def)
qed

lemma wellFormed_data_model: "dataModelTree t \<Longrightarrow> wellFormed t"
  by (induction t) (simp_all add: isOperandToken_def)

section \<open>The parser on the derivations of the grammar\<close>

text \<open>
  On the tokens of a derivation each parsing function returns the tree of the derivation;
  the two loops take the tree built so far and go on with what follows.
\<close>

lemma closing_cases: "rest = [] \<or> hd rest = '')'' \<Longrightarrow>
  parseAndLoop t rest = Inr (t, rest) \<and> parseOrLoop t rest = Inr (t, rest)"
  by (cases rest) (auto simp: parseOrLoop_unfold parseAndLoop_unfold)

lemma parse_grammar:
  "validImplication i \<Longrightarrow> rest = [] \<or> hd rest = '')'' \<Longrightarrow>
     parseImplication (implicationTokens i @ rest) = Inr (implicationTree i, rest)"
  "validDisjunction d \<Longrightarrow> rest = [] \<or> hd rest \<noteq> ''&'' \<Longrightarrow>
     parseOr (disjunctionTokens d @ rest) = parseOrLoop (disjunctionTree d) rest"
  "validConjunction c \<Longrightarrow>
     parseAnd (conjunctionTokens c @ rest) = parseAndLoop (conjunctionTree c) rest"
  "validNegation n \<Longrightarrow> parseNot (negationTokens n @ rest) = Inr (negationTree n, rest)"
  "validPrimary p \<Longrightarrow>
     parsePrimary (primaryTokens p @ rest) = Inr (primaryTree p, rest) \<and>
     primaryTokens p \<noteq> [] \<and> hd (primaryTokens p) \<noteq> ''~''"
proof (induction i and d and c and n and p arbitrary: rest and rest and rest and rest and rest)
  case (ImpDisjunction d)
  from ImpDisjunction.prems have "rest = [] \<or> hd rest \<noteq> ''&''" by auto
  with ImpDisjunction.IH [of rest] ImpDisjunction.prems
  have "parseOr (disjunctionTokens d @ rest) = Inr (disjunctionTree d, rest)"
    by (simp add: closing_cases)
  with ImpDisjunction.prems show ?case
    by (cases rest) (auto simp: parseImplication_unfold)
next
  case (ImpArrow d i)
  from ImpArrow.prems ImpArrow.IH(1) [of "''->'' # implicationTokens i @ rest"]
  have "parseOr (disjunctionTokens d @ ''->'' # implicationTokens i @ rest) =
      Inr (disjunctionTree d, ''->'' # implicationTokens i @ rest)"
    by (simp add: parseOrLoop_unfold)
  with ImpArrow.prems ImpArrow.IH(2) [of rest] show ?case
    by (simp add: parseImplication_unfold)
next
  case (DisjConjunction c)
  from DisjConjunction.prems DisjConjunction.IH [of rest] show ?case
    by (cases rest) (auto simp: parseOr_unfold parseAndLoop_unfold)
next
  case (DisjBar d c)
  from DisjBar.prems DisjBar.IH(1) [of "''|'' # conjunctionTokens c @ rest"]
  have "parseOr (disjunctionTokens d @ ''|'' # conjunctionTokens c @ rest) =
      parseOrLoop (disjunctionTree d) (''|'' # conjunctionTokens c @ rest)"
    by simp
  with DisjBar.prems DisjBar.IH(2) [of rest] show ?case
    by (cases rest) (auto simp: parseOrLoop_unfold parseAndLoop_unfold)
next
  case (ConjNegation n)
  from ConjNegation.prems ConjNegation.IH [of rest] show ?case
    by (simp add: parseAnd_unfold)
next
  case (ConjAmp c n)
  from ConjAmp.prems ConjAmp.IH(1) [of "''&'' # negationTokens n @ rest"] ConjAmp.IH(2) [of rest]
  show ?case by (simp add: parseAndLoop_unfold)
next
  case (NegTilde n)
  then show ?case by simp
next
  case (NegPrimary p)
  from NegPrimary.prems NegPrimary.IH [of rest] have *: "parsePrimary (primaryTokens p @ rest) = Inr (primaryTree p, rest)"
    and "primaryTokens p \<noteq> []" and "hd (primaryTokens p) \<noteq> ''~''"
    by simp_all
  then obtain t ts where "primaryTokens p = t # ts" "t \<noteq> ''~''"
    by (cases "primaryTokens p") auto
  with * show ?case by simp
next
  case (PrimVar name)
  then show ?case by (auto simp: isVarName_def isNameChar_def)
next
  case (PrimParen i)
  from PrimParen.prems PrimParen.IH [of "'')'' # rest"]
  have "parseImplication (implicationTokens i @ '')'' # rest) =
      Inr (implicationTree i, '')'' # rest)"
    by simp
  then show ?case by simp
qed

text \<open>The tokenizer finds the tokens of a derivation again, whatever the gaps.\<close>

lemma isSpace_not_operator:
  "isSpace c \<Longrightarrow> c \<noteq> CHR ''-'' \<and> c \<noteq> CHR ''>'' \<and> c \<noteq> CHR ''('' \<and> c \<noteq> CHR '')'' \<and>
     c \<noteq> CHR ''~'' \<and> c \<noteq> CHR ''&'' \<and> c \<noteq> CHR ''|''"
  by (auto simp: isSpace_def)

lemma padOperators_space: "isSpace c \<Longrightarrow> padOperators (c # r) = c # padOperators r"
  using isSpace_not_operator [of c] by (simp add: padOperators_def replaceArrow_Cons)

lemma tokenize_space: "isSpace c \<Longrightarrow> tokenize (c # r) = tokenize r"
  by (simp add: tokenize_def padOperators_space)

lemma tokenize_gap: "list_all isSpace g \<Longrightarrow> tokenize (g @ r) = tokenize r"
  by (induction g) (simp_all add: tokenize_space)

lemma boundary_padOperators:
  assumes "boundary r"
  shows "(padOperators r = [] \<or> isSpace (hd (padOperators r))) \<and> (r = [] \<or> hd r \<noteq> CHR ''>'')"
proof (cases r)
  case Nil
  then show ?thesis by (simp add: padOperators_simps)
next
  case (Cons c r')
  from assms Cons consider "isSpace c" | "c \<in> {CHR ''('', CHR '')'', CHR ''~'', CHR ''&'', CHR ''|''}"
    | r'' where "c = CHR ''-''" "r' = CHR ''>'' # r''"
    by (cases r') (auto simp: boundary_def)
  then show ?thesis
  proof cases
    case 1
    with Cons show ?thesis
      using isSpace_not_operator [of c] by (simp add: padOperators_space)
  next
    case 2
    with Cons show ?thesis by (auto simp: padOperators_simps isSpace_def)
  next
    case 3
    with Cons show ?thesis by (simp add: padOperators_simps isSpace_def)
  qed
qed

lemma splitWs_end_space:
  "acc \<noteq> [] \<Longrightarrow> y = [] \<or> isSpace (hd y) \<Longrightarrow> splitWs acc y = acc # splitWs [] y"
  by (cases y) auto

lemma tokenize_name_boundary:
  assumes "isVarName n" and "boundary r"
  shows "tokenize (n @ r) = n # tokenize r"
proof -
  from boundary_padOperators [OF assms(2)]
  have pad: "padOperators r = [] \<or> isSpace (hd (padOperators r))"
    and gt: "r = [] \<or> hd r \<noteq> CHR ''>''"
    by simp_all
  from assms(1) gt have "padOperators (n @ r) = n @ padOperators r"
    by (rule padOperators_name)
  moreover from assms(1) have "list_all isNameChar n" and "n \<noteq> []"
    by (simp_all add: isVarName_def)
  ultimately show ?thesis
    using pad by (simp add: tokenize_def splitWs_name splitWs_end_space)
qed

lemma tokenize_special: "isSpecial t \<Longrightarrow> tokenize (t @ r) = t # tokenize r"
  by (auto simp: isSpecial_def tokenize_simps)

lemma boundary_gaps: "list_all (list_all isSpace) gaps \<Longrightarrow> boundary (concat gaps)"
proof (induction gaps)
  case Nil
  then show ?case by (simp add: boundary_def)
next
  case (Cons g gaps)
  then show ?case by (cases g) (auto simp: boundary_def)
qed

lemma boundary_special: "isSpecial t \<Longrightarrow> boundary (t @ r)"
  by (auto simp: isSpecial_def boundary_def)

lemma boundary_spaced:
  assumes "list_all (list_all isSpace) gaps" and "ts = [] \<or> isSpecial (hd ts)"
  shows "boundary (spaced gaps ts)"
proof (cases ts)
  case Nil
  with assms(1) show ?thesis by (simp add: boundary_gaps)
next
  case ts: (Cons t ts')
  with assms(2) have sp: "isSpecial t" by simp
  show ?thesis
  proof (cases gaps)
    case Nil
    with ts sp show ?thesis by (simp add: boundary_special)
  next
    case (Cons g gaps')
    show ?thesis
    proof (cases g)
      case Nil
      with Cons ts sp show ?thesis by (simp add: boundary_special)
    next
      case (Cons c g')
      with \<open>gaps = g # gaps'\<close> ts assms(1) show ?thesis by (simp add: boundary_def)
    qed
  qed
qed

lemma tokenize_gaps: "list_all (list_all isSpace) gaps \<Longrightarrow> tokenize (concat gaps) = []"
proof -
  assume "list_all (list_all isSpace) gaps"
  then have "list_all isSpace (concat gaps)" by (induction gaps) simp_all
  from tokenize_gap [OF this, of "[]"] show ?thesis by (simp add: tokenize_simps)
qed

lemma tokenize_token:
  assumes "isSpecial t \<or> (isVarName t \<and> boundary r)"
  shows "tokenize (t @ r) = t # tokenize r"
  using assms by (auto simp: tokenize_special tokenize_name_boundary)

lemma tokenize_spaced:
  "separable ts \<Longrightarrow> list_all (list_all isSpace) gaps \<Longrightarrow> tokenize (spaced gaps ts) = ts"
proof (induction ts arbitrary: gaps rule: separable.induct)
  case 1
  then show ?case by (simp add: tokenize_gaps)
next
  case (2 t)
  from "2.prems"(2) have "list_all (list_all isSpace) (tl gaps)"
    by (cases gaps) simp_all
  then have b: "boundary (spaced (tl gaps) [])"
    by (simp add: boundary_gaps)
  from "2.prems"(2) have e: "tokenize (spaced (tl gaps) []) = []"
    by (cases gaps) (simp_all add: tokenize_gaps tokenize_simps)
  from "2.prems"(1) b have "tokenize (t @ spaced (tl gaps) []) = t # tokenize (spaced (tl gaps) [])"
    by (intro tokenize_token) auto
  with e "2.prems"(2) show ?case
    by (cases gaps) (simp_all add: tokenize_gap)
next
  case (3 t u ts)
  from "3.prems"(2) have g: "list_all (list_all isSpace) (tl gaps)"
    by (cases gaps) simp_all
  from "3.prems"(1) have sep: "separable (u # ts)" by simp
  from "3.IH" [OF sep g] have ih: "tokenize (spaced (tl gaps) (u # ts)) = u # ts" .
  have "isSpecial t \<or> (isVarName t \<and> boundary (spaced (tl gaps) (u # ts)))"
  proof (cases "isSpecial t")
    case True
    then show ?thesis by simp
  next
    case False
    with "3.prems"(1) have "isVarName t" "isSpecial u" by auto
    with boundary_spaced [OF g, of "u # ts"] show ?thesis by simp
  qed
  then have "tokenize (t @ spaced (tl gaps) (u # ts)) = t # tokenize (spaced (tl gaps) (u # ts))"
    by (rule tokenize_token)
  with ih "3.prems"(2) show ?case
    by (cases gaps) (simp_all add: tokenize_gap)
qed

lemma separable_append:
  "separable a \<Longrightarrow> isSpecial s \<Longrightarrow> separable b \<Longrightarrow> separable (a @ s # b)"
proof (induction a rule: separable.induct)
  case 1
  then show ?case by (cases b) simp_all
next
  case (2 t)
  then show ?case by (cases b) auto
next
  case (3 t u ts)
  then show ?case by simp
qed

lemma separable_Cons: "isSpecial s \<Longrightarrow> separable b \<Longrightarrow> separable (s # b)"
  by (cases b) simp_all

lemma separable_grammar:
  "validImplication i \<Longrightarrow> separable (implicationTokens i)"
  "validDisjunction d \<Longrightarrow> separable (disjunctionTokens d)"
  "validConjunction c \<Longrightarrow> separable (conjunctionTokens c)"
  "validNegation n \<Longrightarrow> separable (negationTokens n)"
  "validPrimary p \<Longrightarrow> separable (primaryTokens p)"
proof (induction i and d and c and n and p)
  case (PrimParen i)
  then have "separable (implicationTokens i @ '')'' # [])"
    by (intro separable_append) (simp_all add: isSpecial_def)
  then show ?case by (simp add: separable_Cons isSpecial_def)
qed (simp_all add: separable_append separable_Cons isSpecial_def)

lemma parseFromString_grammar:
  assumes "validImplication d" and "list_all (list_all isSpace) gaps"
  shows "parseFromString (spaced gaps (implicationTokens d)) = Inr (implicationTree d)"
proof -
  from assms have "tokenize (spaced gaps (implicationTokens d)) = implicationTokens d"
    by (simp add: tokenize_spaced separable_grammar)
  moreover from parse_grammar(1) [OF assms(1), of "[]"]
  have "parseImplication (implicationTokens d) = Inr (implicationTree d, [])" by simp
  ultimately show ?thesis by (simp add: parseFromString_def)
qed

section \<open>Claims about the parser\<close>

text \<open>
  C3. The parser implements the four-level precedence grammar, \<^verbatim>\<open>~\<close> binding tightest, then
  \<^verbatim>\<open>&\<close>, then \<^verbatim>\<open>|\<close> (both associating to the left), then \<^verbatim>\<open>->\<close>, loosest and associating to
  the right: for every valid derivation of the grammar, written with any white space (or
  none) between its tokens, \<^verbatim>\<open>parseFromString\<close> returns the tree of the derivation. In
  particular \<^verbatim>\<open>~P & Q | R -> S\<close> parses to Implies(Or(And(Not(P), Q), R), S) and
  \<^verbatim>\<open>A -> B -> C\<close> parses to Implies(A, Implies(B, C)).
\<close>

theorem parser_implements_precedence_grammar:
  "(validImplication d \<and> list_all (list_all isSpace) gaps \<longrightarrow>
      parseFromString (spaced gaps (implicationTokens d)) = Inr (implicationTree d))
   \<and> parseFromString ''~P & Q | R -> S'' =
       Inr (EImp (EOr (EAnd (ENot (EVar ''P'')) (EVar ''Q'')) (EVar ''R'')) (EVar ''S''))
   \<and> parseFromString ''A -> B -> C'' = Inr (EImp (EVar ''A'') (EImp (EVar ''B'') (EVar ''C'')))
   \<and> parseFromString ''A & B & C'' = Inr (EAnd (EAnd (EVar ''A'') (EVar ''B'')) (EVar ''C''))
   \<and> parseFromString ''A | B | C'' = Inr (EOr (EOr (EVar ''A'') (EVar ''B'')) (EVar ''C''))
   \<and> parseFromString ''~~A & B'' = Inr (EAnd (ENot (ENot (EVar ''A''))) (EVar ''B''))
   \<and> parseFromString ''A | B & C'' = Inr (EOr (EVar ''A'') (EAnd (EVar ''B'') (EVar ''C'')))
   \<and> parseFromString ''A -> B | C & ~D'' =
       Inr (EImp (EVar ''A'') (EOr (EVar ''B'') (EAnd (EVar ''C'') (ENot (EVar ''D'')))))
   \<and> parseFromString ''A->B->C'' = Inr (EImp (EVar ''A'') (EImp (EVar ''B'') (EVar ''C'')))
   \<and> parseFromString ''(A -> B) -> C'' = Inr (EImp (EImp (EVar ''A'') (EVar ''B'')) (EVar ''C''))
   \<and> parseFromString ''A & (B | C)'' = Inr (EAnd (EVar ''A'') (EOr (EVar ''B'') (EVar ''C'')))"
proof -
  have general: "validImplication d \<and> list_all (list_all isSpace) gaps \<longrightarrow>
      parseFromString (spaced gaps (implicationTokens d)) = Inr (implicationTree d)"
    by (simp add: parseFromString_grammar)
  have examples: "parseFromString ''~P & Q | R -> S'' =
       Inr (EImp (EOr (EAnd (ENot (EVar ''P'')) (EVar ''Q'')) (EVar ''R'')) (EVar ''S''))
   \<and> parseFromString ''A -> B -> C'' = Inr (EImp (EVar ''A'') (EImp (EVar ''B'') (EVar ''C'')))
   \<and> parseFromString ''A & B & C'' = Inr (EAnd (EAnd (EVar ''A'') (EVar ''B'')) (EVar ''C''))
   \<and> parseFromString ''A | B | C'' = Inr (EOr (EOr (EVar ''A'') (EVar ''B'')) (EVar ''C''))
   \<and> parseFromString ''~~A & B'' = Inr (EAnd (ENot (ENot (EVar ''A''))) (EVar ''B''))
   \<and> parseFromString ''A | B & C'' = Inr (EOr (EVar ''A'') (EAnd (EVar ''B'') (EVar ''C'')))
   \<and> parseFromString ''A -> B | C & ~D'' =
       Inr (EImp (EVar ''A'') (EOr (EVar ''B'') (EAnd (EVar ''C'') (ENot (EVar ''D'')))))
   \<and> parseFromString ''A->B->C'' = Inr (EImp (EVar ''A'') (EImp (EVar ''B'') (EVar ''C'')))
   \<and> parseFromString ''(A -> B) -> C'' = Inr (EImp (EImp (EVar ''A'') (EVar ''B'')) (EVar ''C''))
   \<and> parseFromString ''A & (B | C)'' = Inr (EAnd (EVar ''A'') (EOr (EVar ''B'') (EVar ''C'')))"
    by code_simp
  from general examples show ?thesis by (rule conjI)
qed

theorem parser_implements_precedence_grammar_witness:
  "validImplication
     (ImpArrow
        (DisjBar
           (DisjConjunction
              (ConjAmp (ConjNegation (NegTilde (NegPrimary (PrimVar ''P''))))
                 (NegPrimary (PrimVar ''Q''))))
           (ConjNegation (NegPrimary (PrimVar ''R''))))
        (ImpDisjunction (DisjConjunction (ConjNegation (NegPrimary (PrimVar ''S''))))))
   \<and> list_all (list_all isSpace) ['' '', [], ''  '']
   \<and> spaced ['' '', [], ''  '']
        (implicationTokens
          (ImpArrow
            (DisjBar
               (DisjConjunction
                  (ConjAmp (ConjNegation (NegTilde (NegPrimary (PrimVar ''P''))))
                     (NegPrimary (PrimVar ''Q''))))
               (ConjNegation (NegPrimary (PrimVar ''R''))))
            (ImpDisjunction (DisjConjunction (ConjNegation (NegPrimary (PrimVar ''S''))))))) =
       '' ~P  &Q|R->S''
   \<and> parseFromString '' ~P  &Q|R->S'' =
       Inr (EImp (EOr (EAnd (ENot (EVar ''P'')) (EVar ''Q'')) (EVar ''R'')) (EVar ''S''))"
proof -
  let ?d = "ImpArrow
        (DisjBar
           (DisjConjunction
              (ConjAmp (ConjNegation (NegTilde (NegPrimary (PrimVar ''P''))))
                 (NegPrimary (PrimVar ''Q''))))
           (ConjNegation (NegPrimary (PrimVar ''R''))))
        (ImpDisjunction (DisjConjunction (ConjNegation (NegPrimary (PrimVar ''S'')))))"
  let ?gaps = "['' '', [], ''  '']"
  have v: "validImplication ?d"
    by (simp add: isVarName_def isNameChar_def isSpace_def)
  have g: "list_all (list_all isSpace) ?gaps"
    by (simp add: isSpace_def)
  have s: "spaced ?gaps (implicationTokens ?d) = '' ~P  &Q|R->S''"
    by simp
  from parser_implements_precedence_grammar [of ?d ?gaps] v g
  have "parseFromString (spaced ?gaps (implicationTokens ?d)) = Inr (implicationTree ?d)"
    by blast
  then have "parseFromString '' ~P  &Q|R->S'' =
       Inr (EImp (EOr (EAnd (ENot (EVar ''P'')) (EVar ''Q'')) (EVar ''R'')) (EVar ''S''))"
    by (simp only: s) simp
  with v g s show ?thesis by blast
qed

text \<open>
  C9. The claim is that the parser fails exactly on grammar violations, a variable being a
  token that is no operator and no parenthesis. \<^verbatim>\<open>parsePrimary\<close> takes any token other than
  \<^verbatim>\<open>(\<close> as a variable: \<^verbatim>\<open>P & |\<close> and \<^verbatim>\<open>())\<close> parse without error, to trees whose variables are
  named \<^verbatim>\<open>|\<close> and \<^verbatim>\<open>)\<close>, and \<^verbatim>\<open>()\<close> is reported as a missing closing parenthesis although the
  parenthesis is there.
\<close>

theorem parsePrimary_takes_operator_as_variable:
  "parseFromString ''P & |'' = Inr (EAnd (EVar ''P'') (EVar ''|''))
   \<and> parseFromString ''())'' = Inr (EVar '')'')
   \<and> parseFromString ''()'' = Inl MissingClosing"
  by code_simp

text \<open>
  C6. Parsing round-trips through the canonical printer: for every well-formed tree \<open>t\<close>
  (in particular every tree whose names are variable names of the data model), parsing
  \<open>exprToStr t\<close> succeeds and yields \<open>t\<close> itself, hence a tree with the same rendering.
\<close>

theorem parse_exprToStr_roundtrip:
  "wellFormed t \<Longrightarrow>
   parseFromString (exprToStr t) = Inr t \<and>
   (\<exists>t'. parseFromString (exprToStr t) = Inr t' \<and> exprToStr t' = exprToStr t)"
  by (simp add: parseFromString_exprToStr)

theorem parse_exprToStr_roundtrip_witness:
  "wellFormed (EImp (ENot (EAnd (EVar ''P'') (ENot (EVar ''q-1'')))) (EOr (EVar ''R'') (EVar ''P'')))
   \<and> parseFromString
       (exprToStr (EImp (ENot (EAnd (EVar ''P'') (ENot (EVar ''q-1'')))) (EOr (EVar ''R'') (EVar ''P'')))) =
     Inr (EImp (ENot (EAnd (EVar ''P'') (ENot (EVar ''q-1'')))) (EOr (EVar ''R'') (EVar ''P'')))
   \<and> exprToStr (EImp (ENot (EAnd (EVar ''P'') (ENot (EVar ''q-1'')))) (EOr (EVar ''R'') (EVar ''P''))) =
     ''(~((P & ~q-1)) -> (R | P))''"
proof -
  have wf: "wellFormed (EImp (ENot (EAnd (EVar ''P'') (ENot (EVar ''q-1'')))) (EOr (EVar ''R'') (EVar ''P'')))"
    by (simp add: isOperandToken_def isVarName_def isNameChar_def isSpace_def)
  from parse_exprToStr_roundtrip [OF wf] wf show ?thesis by simp
qed

text \<open>
  C7. The canonical printer is injective: two distinct well-formed trees (in particular two
  distinct trees whose names are variable names of the data model) have different
  renderings.
\<close>

theorem exprToStr_injective:
  "wellFormed a \<Longrightarrow> wellFormed b \<Longrightarrow> a \<noteq> b \<Longrightarrow> exprToStr a \<noteq> exprToStr b"
proof
  assume wf: "wellFormed a" "wellFormed b" and ne: "a \<noteq> b" and eq: "exprToStr a = exprToStr b"
  have "Inr a = parseFromString (exprToStr a)"
    by (simp only: parseFromString_exprToStr [OF wf(1)])
  also have "\<dots> = parseFromString (exprToStr b)"
    by (simp only: eq)
  also have "\<dots> = Inr b"
    by (simp only: parseFromString_exprToStr [OF wf(2)])
  finally have "a = b" by (simp only: sum.inject)
  with ne show False by (simp only: not_False_eq_True simp_thms)
qed

theorem exprToStr_injective_witness:
  "wellFormed (ENot (EAnd (EVar ''P'') (EVar ''Q'')))
   \<and> wellFormed (EAnd (ENot (EVar ''P'')) (EVar ''Q''))
   \<and> ENot (EAnd (EVar ''P'') (EVar ''Q'')) \<noteq> EAnd (ENot (EVar ''P'')) (EVar ''Q'')
   \<and> exprToStr (ENot (EAnd (EVar ''P'') (EVar ''Q''))) \<noteq>
     exprToStr (EAnd (ENot (EVar ''P'')) (EVar ''Q''))"
proof -
  have wf: "wellFormed (ENot (EAnd (EVar ''P'') (EVar ''Q'')))"
    "wellFormed (EAnd (ENot (EVar ''P'')) (EVar ''Q''))"
    by (simp_all add: isOperandToken_def isVarName_def isNameChar_def isSpace_def)
  have ne: "ENot (EAnd (EVar ''P'') (EVar ''Q'')) \<noteq> EAnd (ENot (EVar ''P'')) (EVar ''Q'')"
    by simp
  from exprToStr_injective [OF wf ne] wf ne show ?thesis by blast
qed

section \<open>Claims about the evaluator\<close>

text \<open>
  C2. The claim is that a variable absent from the assignment evaluates to false. A name
  that \<^verbatim>\<open>Object.prototype\<close> defines is found on the empty assignment object and is truthy;
  \<^verbatim>\<open>solve\<close> cannot even store a value for the variable \<^verbatim>\<open>__proto__\<close>, so in the row of mask 0
  that variable has no own value and evaluates to true.
\<close>

theorem evalExpr_inherited_name_is_true:
  "evalExpr (EVar ''constructor'') Map.empty = True
   \<and> makeAssignment [''__proto__''] 0 ''__proto__'' = None
   \<and> evalExpr (EVar ''__proto__'') (makeAssignment [''__proto__''] 0) = True"
  by (simp add: getProp_def objectPrototypeKeys_def makeAssignment_def setProp_def)

section \<open>Claims about the forward-chaining engine\<close>

text \<open>
  C4. The claim is that \<^verbatim>\<open>forwardChain\<close> never raises to its caller and returns a success
  result also when the goal is added during initialisation. The initialisation calls
  \<^verbatim>\<open>addExpr\<close> before the \<^verbatim>\<open>try\<close> block is entered, so with the goal among the premises, or
  as the temporary assumption, the object \<^verbatim>\<open>{found: true}\<close> leaves \<^verbatim>\<open>forwardChain\<close> as an
  exception. A goal added by a rule, inside the \<^verbatim>\<open>try\<close>, gives the success result, and a
  goal never added gives the failure result.
\<close>

theorem forwardChain_throws_when_goal_is_premise:
  "forwardChain [EVar ''P''] (EVar ''P'') [] = Some (Inl FoundExn)
   \<and> forwardChain [EVar ''Q''] (EVar ''P'') [EVar ''P''] = Some (Inl FoundExn)
   \<and> forwardChain [EImp (EVar ''P'') (EVar ''Q''), EVar ''P''] (EVar ''Q'') [] =
       Some (Inr \<lparr>run_map =
         [(''(P -> Q)'', \<lparr>expr = EImp (EVar ''P'') (EVar ''Q''), reason = Premise 1,
             derivedFrom = [], stepOrder = 1\<rparr>),
          (''P'', \<lparr>expr = EVar ''P'', reason = Premise 2, derivedFrom = [], stepOrder = 2\<rparr>),
          (''Q'', \<lparr>expr = EVar ''Q'', reason = ModusPonens ''(P -> Q)'' ''P'',
             derivedFrom = [''(P -> Q)'', ''P''], stepOrder = 3\<rparr>)],
         run_order = [''(P -> Q)'', ''P'', ''Q''], goalFound = True\<rparr>)
   \<and> forwardChain [EVar ''Q''] (EVar ''P'') [] =
       Some (Inr \<lparr>run_map =
         [(''Q'', \<lparr>expr = EVar ''Q'', reason = Premise 1, derivedFrom = [], stepOrder = 1\<rparr>)],
         run_order = [''Q''], goalFound = False\<rparr>)"
  by code_simp

text \<open>
  C5. The claim is that the goal \<^verbatim>\<open>P -> P\<close> is derived by a conditional proof. The second
  run of the engine has goal \<^verbatim>\<open>P\<close> and assumption \<^verbatim>\<open>P\<close>, adds the goal during initialisation
  and throws; \<^verbatim>\<open>attemptDeductionWithProof\<close> has no handler, so the exception leaves it and no
  proof is returned. When the consequent is first added by a rule, the conditional proof is
  returned, with the discharge line last.
\<close>

theorem attemptDeductionWithProof_throws_on_P_implies_P:
  "attemptDeductionWithProof [EVar ''Q''] (EImp (EVar ''P'') (EVar ''P'')) = Some (Inl FoundExn)
   \<and> attemptDeductionWithProof [] (EImp (EVar ''P'') (EVar ''P'')) = Some (Inl FoundExn)
   \<and> attemptDeductionWithProof [EImp (EVar ''P'') (EVar ''Q'')]
         (EImp (EAnd (EVar ''P'') (EVar ''S'')) (EVar ''Q'')) =
       Some (Inr \<lparr>derived = True,
         html = Some (ImpIntro,
           [(1, ''(P -> Q)'', Premise 1), (2, ''(P & S)'', Assumption),
            (3, ''P'', Simplification ''(P & S)''), (4, ''S'', Simplification ''(P & S)''),
            (5, ''Q'', ModusPonens ''(P -> Q)'' ''P''),
            (6, ''(P & S) -> Q'', ImplicationIntroduction)])\<rparr>)"
  by code_simp

subsection \<open>The engine's invariant\<close>

lemma mapHas_append: "mapHas (m @ [(s, en)]) k = (mapHas m k \<or> k = s)"
  by (auto simp: mapHas_def map_add_def split: option.splits)

lemma keysPresent_append:
  "keysPresent keys st \<Longrightarrow> map' st' = map' st @ [(s, en)] \<Longrightarrow> keysPresent keys st'"
  by (simp add: keysPresent_def list_all_iff mapHas_append)

lemma addExpr_inv:
  assumes "engineInv keys st"
  shows "case addExpr goalStr st ex rsn src of
           Inl (x, st') \<Rightarrow> x = FoundExn \<and> engineInv keys st'
         | Inr (b, st') \<Rightarrow> engineInv keys st'"
  using assms
  by (auto simp: addExpr_def Let_def engineInv_def keysPresent_def list_all_iff mapHas_append)

lemma tryAdd_ok:
  "engineInv keys (fst stc) \<Longrightarrow> okResult (engineInv keys) (tryAdd goalStr ex rsn src stc)"
  using addExpr_inv [of keys "fst stc" goalStr ex rsn src]
  by (auto simp: tryAdd_def okResult_def split: sum.splits prod.splits)

lemma andThen_ok:
  assumes "okResult P r" and "\<And>v. P (fst v) \<Longrightarrow> okResult P (k v)"
  shows "okResult P (andThen r k)"
proof (cases r)
  case (Inl x)
  with assms(1) show ?thesis by (simp add: andThen_def okResult_def)
next
  case (Inr v)
  with assms(1) have "P (fst v)" by (cases v) (simp add: okResult_def)
  from assms(2) [OF this] Inr show ?thesis by (simp add: andThen_def)
qed

lemma Inr_ok: "P (fst stc) \<Longrightarrow> okResult P (Inr stc)"
  by (cases stc) (simp add: okResult_def)

lemma simplification_ok:
  "engineInv keys (fst stc) \<Longrightarrow> okResult (engineInv keys) (simplification goalStr s e stc)"
  by (cases e) (auto simp: simplification_def intro!: andThen_ok tryAdd_ok Inr_ok)

lemma modusPonens_ok:
  "engineInv keys (fst stc) \<Longrightarrow> okResult (engineInv keys) (modusPonens goalStr s l r stc)"
  by (auto simp: modusPonens_def Let_def intro!: tryAdd_ok Inr_ok)

lemma modusTollens_ok:
  "engineInv keys (fst stc) \<Longrightarrow> okResult (engineInv keys) (modusTollens goalStr s l r stc)"
  by (auto simp: modusTollens_def Let_def intro!: tryAdd_ok Inr_ok)

lemma hypotheticalSyllogism_ok:
  "engineInv keys (fst stc) \<Longrightarrow>
   okResult (engineInv keys) (hypotheticalSyllogism goalStr s t l r f stc)"
  by (cases f) (auto simp: hypotheticalSyllogism_def intro!: tryAdd_ok Inr_ok)

lemma implicationRules_ok:
  "engineInv keys (fst stc) \<Longrightarrow>
   okResult (engineInv keys) (implicationRules goalStr s t e f stc)"
  by (cases e)
     (auto simp: implicationRules_def
           intro!: andThen_ok modusPonens_ok modusTollens_ok hypotheticalSyllogism_ok Inr_ok)

lemma disjunctiveSyllogism_ok:
  "engineInv keys (fst stc) \<Longrightarrow>
   okResult (engineInv keys) (disjunctiveSyllogism goalStr s e stc)"
  by (cases e)
     (auto simp: disjunctiveSyllogism_def Let_def intro!: andThen_ok tryAdd_ok Inr_ok)

lemma conjunctionIntroduction_ok:
  "engineInv keys (fst stc) \<Longrightarrow>
   okResult (engineInv keys) (conjunctionIntroduction goalExpr goalStr e f stc)"
  by (cases goalExpr)
     (auto simp: conjunctionIntroduction_def Let_def intro!: tryAdd_ok Inr_ok)

lemma keysPresent_get:
  "keysPresent keys st \<Longrightarrow> t \<in> set keys \<Longrightarrow> \<exists>en. mapGet (map' st) t = Some en"
  by (auto simp: keysPresent_def list_all_iff mapHas_def mapGet_def)

lemma innerBody_ok:
  assumes "engineInv keys (fst stc)" and "t \<in> set keys"
  shows "okResult (engineInv keys) (innerBody goalExpr goalStr s e t stc)"
proof -
  from assms(1) have "keysPresent keys (fst stc)" by (simp add: engineInv_def)
  from keysPresent_get [OF this assms(2)]
  obtain en where "mapGet (map' (fst stc)) t = Some en" by blast
  with assms(1) show ?thesis
    by (auto simp: innerBody_def Let_def
          intro!: andThen_ok implicationRules_ok disjunctiveSyllogism_ok
                  conjunctionIntroduction_ok Inr_ok)
qed

lemma innerLoop_ok:
  "engineInv keys (fst stc) \<Longrightarrow> set ts \<subseteq> set keys \<Longrightarrow>
   okResult (engineInv keys) (innerLoop goalExpr goalStr s e ts stc)"
proof (induction ts arbitrary: stc)
  case Nil
  then show ?case by (simp add: Inr_ok)
next
  case (Cons t ts)
  then show ?case by (auto intro!: andThen_ok innerBody_ok)
qed

lemma outerBody_ok:
  assumes "engineInv keys (fst stc)" and "s \<in> set keys"
  shows "okResult (engineInv keys) (outerBody goalExpr goalStr keys s stc)"
proof -
  from assms(1) have "keysPresent keys (fst stc)" by (simp add: engineInv_def)
  from keysPresent_get [OF this assms(2)]
  obtain en where "mapGet (map' (fst stc)) s = Some en" by blast
  with assms(1) show ?thesis
    by (auto simp: outerBody_def Let_def intro!: andThen_ok simplification_ok innerLoop_ok)
qed

lemma outerLoop_ok:
  "engineInv keys (fst stc) \<Longrightarrow> set ss \<subseteq> set keys \<Longrightarrow>
   okResult (engineInv keys) (outerLoop goalExpr goalStr keys ss stc)"
proof (induction ss arbitrary: stc)
  case Nil
  then show ?case by (simp add: Inr_ok)
next
  case (Cons s ss)
  then show ?case by (auto intro!: andThen_ok outerBody_ok)
qed

lemma pass_ok:
  "keysPresent (order st) st \<Longrightarrow> okResult (engineInv (order st)) (pass goalExpr goalStr st)"
  unfolding pass_def by (rule outerLoop_ok) (simp_all add: engineInv_def)

lemma whileLoop_stops:
  assumes "keysPresent (order st) st"
  shows "\<exists>r. whileLoop goalExpr goalStr st changed safety = Some r \<and>
           (case r of
              Inl (x, st') \<Rightarrow> x = FoundExn
            | Inr (st', changed', n) \<Rightarrow>
                n \<le> max safety 5000 \<and> (changed' \<longrightarrow> 5000 \<le> n))"
  using assms
proof (induction "5000 - safety" arbitrary: st changed safety)
  case 0
  then show ?case by (subst whileLoop.simps) simp
next
  case (Suc k)
  show ?case
  proof (cases "changed \<and> safety < 5000")
    case False
    then show ?thesis by (subst whileLoop.simps) auto
  next
    case True
    show ?thesis
    proof (cases "pass goalExpr goalStr st")
      case (Inl x)
      with pass_ok [OF Suc.prems, of goalExpr goalStr] True show ?thesis
        by (subst whileLoop.simps) (auto simp: okResult_def split: prod.splits)
    next
      case (Inr v)
      obtain st' ch' where v: "v = (st', ch')" by (cases v)
      from pass_ok [OF Suc.prems, of goalExpr goalStr] Inr v
      have inv': "keysPresent (order st') st'" by (simp add: okResult_def engineInv_def)
      from Suc.hyps(2) True have "k = 5000 - (safety + 1)" by simp
      from Suc.hyps(1) [OF this inv', of ch']
      obtain r where r: "whileLoop goalExpr goalStr st' ch' (safety + 1) = Some r"
        and rr: "case r of Inl (x, st') \<Rightarrow> x = FoundExn
            | Inr (st', changed', n) \<Rightarrow> n \<le> max (safety + 1) 5000 \<and> (changed' \<longrightarrow> 5000 \<le> n)"
        by blast
      from True Inr v r have "whileLoop goalExpr goalStr st changed safety = Some r"
        by (subst whileLoop.simps) simp
      with rr True show ?thesis by (auto split: sum.splits prod.splits)
    qed
  qed
qed

lemma addExpr_throws_found: "addExpr goalStr st ex rsn src = Inl (x, st') \<Longrightarrow> x = FoundExn"
  by (auto simp: addExpr_def Let_def split: if_splits)

lemma addExpr_keeps_order:
  assumes "keysPresent (order st) st" and "addExpr goalStr st ex rsn src = Inr (b, st')"
  shows "keysPresent (order st') st'"
proof -
  from assms(1) have "engineInv [] st" by (simp add: engineInv_def keysPresent_def)
  from addExpr_inv [OF this, of goalStr ex rsn src] assms(2) show ?thesis
    by (simp add: engineInv_def)
qed

lemma initPremises_throws_found:
  "initPremises goalStr exs idx st = Inl (x, st') \<Longrightarrow> x = FoundExn"
proof (induction exs arbitrary: idx st)
  case Nil
  then show ?case by simp
next
  case (Cons ex exs)
  show ?case
  proof (cases "addExpr goalStr st ex (Premise (idx + 1)) []")
    case (Inl y)
    with Cons.prems show ?thesis by (cases y) (auto dest: addExpr_throws_found)
  next
    case (Inr v)
    with Cons.prems Cons.IH show ?thesis by (cases v) auto
  qed
qed

lemma initPremises_keeps_order:
  "keysPresent (order st) st \<Longrightarrow> initPremises goalStr exs idx st = Inr st' \<Longrightarrow>
   keysPresent (order st') st'"
proof (induction exs arbitrary: idx st)
  case Nil
  then show ?case by simp
next
  case (Cons ex exs)
  show ?case
  proof (cases "addExpr goalStr st ex (Premise (idx + 1)) []")
    case (Inl y)
    with Cons.prems show ?thesis by simp
  next
    case (Inr v)
    obtain b st1 where v: "v = (b, st1)" by (cases v)
    from addExpr_keeps_order [OF Cons.prems(1)] Inr v
    have "keysPresent (order st1) st1" by simp
    from Cons.IH [OF this] Cons.prems(2) Inr v show ?thesis by simp
  qed
qed

lemma initAssumptions_throws_found:
  "initAssumptions goalStr exs st = Inl (x, st') \<Longrightarrow> x = FoundExn"
proof (induction exs arbitrary: st)
  case Nil
  then show ?case by simp
next
  case (Cons ex exs)
  show ?case
  proof (cases "addExpr goalStr st ex Assumption []")
    case (Inl y)
    with Cons.prems show ?thesis by (cases y) (auto dest: addExpr_throws_found)
  next
    case (Inr v)
    with Cons.prems Cons.IH show ?thesis by (cases v) auto
  qed
qed

lemma initAssumptions_keeps_order:
  "keysPresent (order st) st \<Longrightarrow> initAssumptions goalStr exs st = Inr st' \<Longrightarrow>
   keysPresent (order st') st'"
proof (induction exs arbitrary: st)
  case Nil
  then show ?case by simp
next
  case (Cons ex exs)
  show ?case
  proof (cases "addExpr goalStr st ex Assumption []")
    case (Inl y)
    with Cons.prems show ?thesis by simp
  next
    case (Inr v)
    obtain b st1 where v: "v = (b, st1)" by (cases v)
    from addExpr_keeps_order [OF Cons.prems(1)] Inr v
    have "keysPresent (order st1) st1" by simp
    from Cons.IH [OF this] Cons.prems(2) Inr v show ?thesis by simp
  qed
qed

lemma forwardChain_returns:
  "\<exists>r. forwardChain premiseExprs goalExpr extraAssumptions = Some r \<and> r \<noteq> Inl TypeErrorExn"
proof -
  let ?g = "exprToStr goalExpr"
  let ?st0 = "\<lparr>map' = [], order = []\<rparr>"
  have inv0: "keysPresent (order ?st0) ?st0" by (simp add: keysPresent_def)
  show ?thesis
  proof (cases "initPremises ?g premiseExprs 0 ?st0")
    case (Inl y)
    then show ?thesis
      by (cases y) (auto simp: forwardChain_def dest: initPremises_throws_found)
  next
    case st1: (Inr st1)
    from initPremises_keeps_order [OF inv0 st1]
    have inv1: "keysPresent (order st1) st1" .
    show ?thesis
    proof (cases "initAssumptions ?g extraAssumptions st1")
      case (Inl y)
      with st1 show ?thesis
        by (cases y) (auto simp: forwardChain_def dest: initAssumptions_throws_found)
    next
      case st2: (Inr st2)
      from initAssumptions_keeps_order [OF inv1 st2]
      have inv2: "keysPresent (order st2) st2" .
      from whileLoop_stops [OF inv2, of goalExpr ?g True 0]
      obtain r where r: "whileLoop goalExpr ?g st2 True 0 = Some r"
        and rr: "case r of Inl (x, st') \<Rightarrow> x = FoundExn
                 | Inr (st', changed', n) \<Rightarrow>
                     n \<le> max 0 5000 \<and> (changed' \<longrightarrow> 5000 \<le> n)"
        by blast
      show ?thesis
      proof (cases r)
        case (Inl y)
        with r rr st1 st2 show ?thesis
          by (cases y) (simp add: forwardChain_def)
      next
        case (Inr v)
        with r st1 st2 show ?thesis
          by (cases v) (auto simp: forwardChain_def)
      qed
    qed
  qed
qed

lemma whileLoop_terminates:
  "\<exists>r. whileLoop goalExpr goalStr st changed safety = Some r \<and>
        (case r of
           Inl _ \<Rightarrow> True
         | Inr (st', changed', n) \<Rightarrow> n \<le> max safety 5000 \<and> (changed' \<longrightarrow> 5000 \<le> n))"
proof (induction "5000 - safety" arbitrary: st changed safety)
  case 0
  then show ?case by (subst whileLoop.simps) simp
next
  case (Suc k)
  show ?case
  proof (cases "changed \<and> safety < 5000")
    case False
    then show ?thesis by (subst whileLoop.simps) auto
  next
    case True
    show ?thesis
    proof (cases "pass goalExpr goalStr st")
      case (Inl x)
      with True show ?thesis by (subst whileLoop.simps) simp
    next
      case (Inr v)
      obtain st' ch' where v: "v = (st', ch')" by (cases v)
      from Suc.hyps(2) True have "k = 5000 - (safety + 1)" by simp
      from Suc.hyps(1) [OF this, of st' ch']
      obtain r where r: "whileLoop goalExpr goalStr st' ch' (safety + 1) = Some r"
        and rr: "case r of Inl _ \<Rightarrow> True
            | Inr (st', changed', n) \<Rightarrow> n \<le> max (safety + 1) 5000 \<and> (changed' \<longrightarrow> 5000 \<le> n)"
        by blast
      from True Inr v r have "whileLoop goalExpr goalStr st changed safety = Some r"
        by (subst whileLoop.simps) simp
      with rr True show ?thesis by (auto split: sum.splits prod.splits)
    qed
  qed
qed

text \<open>
  C10. The engine terminates on every input: \<^verbatim>\<open>forwardChain\<close> always produces an outcome
  (a result or the thrown \<^verbatim>\<open>{found: true}\<close>, never a TypeError), and its pass loop, from any
  state, ends either with the goal found (the throw) or after at most 5000 passes, with
  \<^verbatim>\<open>changed\<close> false (a pass that added nothing) unless the bound of 5000 passes was reached.
\<close>

theorem forwardChain_terminates:
  "(\<exists>r. forwardChain premiseExprs goalExpr extraAssumptions = Some r \<and> r \<noteq> Inl TypeErrorExn)
   \<and> (\<forall>st changed. \<exists>r. whileLoop goalExpr goalStr st changed 0 = Some r \<and>
        (case r of
           Inl _ \<Rightarrow> True
         | Inr (st', changed', n) \<Rightarrow> n \<le> 5000 \<and> (changed' \<longrightarrow> n = 5000)))"
proof (intro conjI allI)
  show "\<exists>r. forwardChain premiseExprs goalExpr extraAssumptions = Some r \<and> r \<noteq> Inl TypeErrorExn"
    by (rule forwardChain_returns)
next
  fix st changed
  from whileLoop_terminates [of goalExpr goalStr st changed 0]
  obtain r where r: "whileLoop goalExpr goalStr st changed 0 = Some r"
    and rr: "case r of
               Inl _ \<Rightarrow> True
             | Inr (st', changed', n) \<Rightarrow> n \<le> max 0 5000 \<and> (changed' \<longrightarrow> 5000 \<le> n)"
    by blast
  from rr have "case r of
                  Inl _ \<Rightarrow> True
                | Inr (st', changed', n) \<Rightarrow> n \<le> 5000 \<and> (changed' \<longrightarrow> n = 5000)"
    by (auto split: sum.splits prod.splits)
  with r show "\<exists>r. whileLoop goalExpr goalStr st changed 0 = Some r \<and>
        (case r of
           Inl _ \<Rightarrow> True
         | Inr (st', changed', n) \<Rightarrow> n \<le> 5000 \<and> (changed' \<longrightarrow> n = 5000))"
    by blast
qed

theorem forwardChain_terminates_witness:
  "(\<exists>r. forwardChain [EImp (EVar ''P'') (EVar ''Q''), EVar ''P''] (EVar ''Q'') [] = Some r
        \<and> r \<noteq> Inl TypeErrorExn)
   \<and> (\<forall>st changed. \<exists>r. whileLoop (EVar ''Q'') ''Q'' st changed 0 = Some r \<and>
        (case r of
           Inl _ \<Rightarrow> True
         | Inr (st', changed', n) \<Rightarrow> n \<le> 5000 \<and> (changed' \<longrightarrow> n = 5000)))"
  by (rule forwardChain_terminates)

text \<open>
  C8, as amended. Conjunction Introduction is attempted only when the goal is a conjunction
  And(goalL, goalR). For a pair (F, G) of facts with distinct canonical strings, both in the
  map, the fact added is And(F, G) in the order of the pair: when F matches goalL and G
  matches goalR it is the goal and the search stops; when F matches goalR and G matches
  goalL it is the swapped conjunction, rendered as \<^verbatim>\<open>(goalR & goalL)\<close>, and the search goes on.
\<close>

theorem conjunctionIntroduction_pair_order:
  "((\<forall>goalL goalR. goalExpr \<noteq> EAnd goalL goalR) \<longrightarrow>
      conjunctionIntroduction goalExpr goalStr e f (st, changed) = Inr (st, changed))
   \<and> (goalExpr = EAnd goalL goalR \<and> goalStr = exprToStr goalExpr \<and>
      exprToStr e \<noteq> exprToStr f \<and>
      mapHas (map' st) (exprToStr e) \<and> mapHas (map' st) (exprToStr f) \<and>
      exprToStr e = exprToStr goalL \<and> exprToStr f = exprToStr goalR \<and>
      \<not> mapHas (map' st) goalStr \<longrightarrow>
      conjunctionIntroduction goalExpr goalStr e f (st, changed) =
        Inl (FoundExn,
             \<lparr>map' = map' st @
                [(goalStr,
                  \<lparr>expr = EAnd e f,
                   reason = ConjunctionIntroduction (exprToStr e) (exprToStr f),
                   derivedFrom = [exprToStr e, exprToStr f],
                   stepOrder = length (order st) + 1\<rparr>)],
              order = order st @ [goalStr]\<rparr>))
   \<and> (goalExpr = EAnd goalL goalR \<and>
      exprToStr e \<noteq> exprToStr f \<and>
      mapHas (map' st) (exprToStr e) \<and> mapHas (map' st) (exprToStr f) \<and>
      exprToStr e = exprToStr goalR \<and> exprToStr f = exprToStr goalL \<and>
      \<not> mapHas (map' st) (exprToStr (EAnd goalR goalL)) \<and>
      exprToStr (EAnd goalR goalL) \<noteq> goalStr \<longrightarrow>
      conjunctionIntroduction goalExpr goalStr e f (st, changed) =
        Inr (\<lparr>map' = map' st @
                [(exprToStr (EAnd goalR goalL),
                  \<lparr>expr = EAnd e f,
                   reason = ConjunctionIntroduction (exprToStr e) (exprToStr f),
                   derivedFrom = [exprToStr e, exprToStr f],
                   stepOrder = length (order st) + 1\<rparr>)],
              order = order st @ [exprToStr (EAnd goalR goalL)]\<rparr>, True))"
proof (intro conjI impI)
  assume "\<forall>goalL goalR. goalExpr \<noteq> EAnd goalL goalR"
  then show "conjunctionIntroduction goalExpr goalStr e f (st, changed) = Inr (st, changed)"
    by (cases goalExpr) (simp_all add: conjunctionIntroduction_def)
next
  assume "goalExpr = EAnd goalL goalR \<and> goalStr = exprToStr goalExpr \<and>
      exprToStr e \<noteq> exprToStr f \<and>
      mapHas (map' st) (exprToStr e) \<and> mapHas (map' st) (exprToStr f) \<and>
      exprToStr e = exprToStr goalL \<and> exprToStr f = exprToStr goalR \<and>
      \<not> mapHas (map' st) goalStr"
  then show "conjunctionIntroduction goalExpr goalStr e f (st, changed) =
        Inl (FoundExn,
             \<lparr>map' = map' st @
                [(goalStr,
                  \<lparr>expr = EAnd e f,
                   reason = ConjunctionIntroduction (exprToStr e) (exprToStr f),
                   derivedFrom = [exprToStr e, exprToStr f],
                   stepOrder = length (order st) + 1\<rparr>)],
              order = order st @ [goalStr]\<rparr>)"
    by (elim conjE) (simp add: conjunctionIntroduction_def tryAdd_def addExpr_def Let_def)
next
  assume "goalExpr = EAnd goalL goalR \<and>
      exprToStr e \<noteq> exprToStr f \<and>
      mapHas (map' st) (exprToStr e) \<and> mapHas (map' st) (exprToStr f) \<and>
      exprToStr e = exprToStr goalR \<and> exprToStr f = exprToStr goalL \<and>
      \<not> mapHas (map' st) (exprToStr (EAnd goalR goalL)) \<and>
      exprToStr (EAnd goalR goalL) \<noteq> goalStr"
  then show "conjunctionIntroduction goalExpr goalStr e f (st, changed) =
        Inr (\<lparr>map' = map' st @
                [(exprToStr (EAnd goalR goalL),
                  \<lparr>expr = EAnd e f,
                   reason = ConjunctionIntroduction (exprToStr e) (exprToStr f),
                   derivedFrom = [exprToStr e, exprToStr f],
                   stepOrder = length (order st) + 1\<rparr>)],
              order = order st @ [exprToStr (EAnd goalR goalL)]\<rparr>, True)"
    by (elim conjE) (simp add: conjunctionIntroduction_def tryAdd_def addExpr_def Let_def)
qed

theorem conjunctionIntroduction_pair_order_witness:
  "conjunctionIntroduction (EVar ''R'') ''R'' (EVar ''Q'') (EVar ''P'')
     (\<lparr>map' =
        [(''Q'', \<lparr>expr = EVar ''Q'', reason = Premise 1, derivedFrom = [], stepOrder = 1\<rparr>),
         (''P'', \<lparr>expr = EVar ''P'', reason = Premise 2, derivedFrom = [], stepOrder = 2\<rparr>)],
       order = [''Q'', ''P'']\<rparr>, False) =
   Inr (\<lparr>map' =
        [(''Q'', \<lparr>expr = EVar ''Q'', reason = Premise 1, derivedFrom = [], stepOrder = 1\<rparr>),
         (''P'', \<lparr>expr = EVar ''P'', reason = Premise 2, derivedFrom = [], stepOrder = 2\<rparr>)],
       order = [''Q'', ''P'']\<rparr>, False)
   \<and> conjunctionIntroduction (EAnd (EVar ''P'') (EVar ''Q'')) ''(P & Q)'' (EVar ''P'') (EVar ''Q'')
     (\<lparr>map' =
        [(''Q'', \<lparr>expr = EVar ''Q'', reason = Premise 1, derivedFrom = [], stepOrder = 1\<rparr>),
         (''P'', \<lparr>expr = EVar ''P'', reason = Premise 2, derivedFrom = [], stepOrder = 2\<rparr>)],
       order = [''Q'', ''P'']\<rparr>, False) =
   Inl (FoundExn, \<lparr>map' =
        [(''Q'', \<lparr>expr = EVar ''Q'', reason = Premise 1, derivedFrom = [], stepOrder = 1\<rparr>),
         (''P'', \<lparr>expr = EVar ''P'', reason = Premise 2, derivedFrom = [], stepOrder = 2\<rparr>),
         (''(P & Q)'', \<lparr>expr = EAnd (EVar ''P'') (EVar ''Q''),
            reason = ConjunctionIntroduction ''P'' ''Q'',
            derivedFrom = [''P'', ''Q''], stepOrder = 3\<rparr>)],
       order = [''Q'', ''P'', ''(P & Q)'']\<rparr>)
   \<and> conjunctionIntroduction (EAnd (EVar ''P'') (EVar ''Q'')) ''(P & Q)'' (EVar ''Q'') (EVar ''P'')
     (\<lparr>map' =
        [(''Q'', \<lparr>expr = EVar ''Q'', reason = Premise 1, derivedFrom = [], stepOrder = 1\<rparr>),
         (''P'', \<lparr>expr = EVar ''P'', reason = Premise 2, derivedFrom = [], stepOrder = 2\<rparr>)],
       order = [''Q'', ''P'']\<rparr>, False) =
   Inr (\<lparr>map' =
        [(''Q'', \<lparr>expr = EVar ''Q'', reason = Premise 1, derivedFrom = [], stepOrder = 1\<rparr>),
         (''P'', \<lparr>expr = EVar ''P'', reason = Premise 2, derivedFrom = [], stepOrder = 2\<rparr>),
         (''(Q & P)'', \<lparr>expr = EAnd (EVar ''Q'') (EVar ''P''),
            reason = ConjunctionIntroduction ''Q'' ''P'',
            derivedFrom = [''Q'', ''P''], stepOrder = 3\<rparr>)],
       order = [''Q'', ''P'', ''(Q & P)'']\<rparr>, True)"
  using
    conjunctionIntroduction_pair_order
      [of "EVar ''R''" "''R''" "EVar ''Q''" "EVar ''P''"
          "\<lparr>map' =
        [(''Q'', \<lparr>expr = EVar ''Q'', reason = Premise 1, derivedFrom = [], stepOrder = 1\<rparr>),
         (''P'', \<lparr>expr = EVar ''P'', reason = Premise 2, derivedFrom = [], stepOrder = 2\<rparr>)],
       order = [''Q'', ''P'']\<rparr>" False]
    conjunctionIntroduction_pair_order
      [of "EAnd (EVar ''P'') (EVar ''Q'')" "''(P & Q)''" "EVar ''P''" "EVar ''Q''"
          "\<lparr>map' =
        [(''Q'', \<lparr>expr = EVar ''Q'', reason = Premise 1, derivedFrom = [], stepOrder = 1\<rparr>),
         (''P'', \<lparr>expr = EVar ''P'', reason = Premise 2, derivedFrom = [], stepOrder = 2\<rparr>)],
       order = [''Q'', ''P'']\<rparr>" False "EVar ''P''" "EVar ''Q''"]
    conjunctionIntroduction_pair_order
      [of "EAnd (EVar ''P'') (EVar ''Q'')" "''(P & Q)''" "EVar ''Q''" "EVar ''P''"
          "\<lparr>map' =
        [(''Q'', \<lparr>expr = EVar ''Q'', reason = Premise 1, derivedFrom = [], stepOrder = 1\<rparr>),
         (''P'', \<lparr>expr = EVar ''P'', reason = Premise 2, derivedFrom = [], stepOrder = 2\<rparr>)],
       order = [''Q'', ''P'']\<rparr>" False "EVar ''P''" "EVar ''Q''"]
  by (simp add: mapHas_def)

text \<open>
  C8 as stated fails: with the facts \<^verbatim>\<open>Q\<close>, \<^verbatim>\<open>P\<close> in this order and the goal \<^verbatim>\<open>P & Q\<close>, the pair
  (Q, P) comes first and the fact added for it is \<^verbatim>\<open>(Q & P)\<close>, whose canonical string is not
  the goal's.
\<close>

theorem conjunctionIntroduction_counterexample:
  "forwardChain [EVar ''Q'', EVar ''P''] (EAnd (EVar ''P'') (EVar ''Q'')) [] =
     Some (Inr \<lparr>run_map =
       [(''Q'', \<lparr>expr = EVar ''Q'', reason = Premise 1, derivedFrom = [], stepOrder = 1\<rparr>),
        (''P'', \<lparr>expr = EVar ''P'', reason = Premise 2, derivedFrom = [], stepOrder = 2\<rparr>),
        (''(Q & P)'', \<lparr>expr = EAnd (EVar ''Q'') (EVar ''P''),
           reason = ConjunctionIntroduction ''Q'' ''P'',
           derivedFrom = [''Q'', ''P''], stepOrder = 3\<rparr>),
        (''(P & Q)'', \<lparr>expr = EAnd (EVar ''P'') (EVar ''Q''),
           reason = ConjunctionIntroduction ''P'' ''Q'',
           derivedFrom = [''P'', ''Q''], stepOrder = 4\<rparr>)],
       run_order = [''Q'', ''P'', ''(Q & P)'', ''(P & Q)''], goalFound = True\<rparr>)
   \<and> ''(Q & P)'' \<noteq> exprToStr (EAnd (EVar ''P'') (EVar ''Q''))"
  by code_simp

section \<open>Claims about the truth-table checker\<close>

subsection \<open>32-bit shifts and masks\<close>

lemma sint_eq_0: "(sint (w :: 32 word) = 0) = (w = 0)"
  by (simp add: signed_eq_0_iff)

lemma shl32_one:
  assumes "k < 31"
  shows "shl32 1 k = 2 ^ k"
proof -
  have "(2 :: int) ^ k < 2 ^ 31"
    using assms by (intro power_strict_increasing) simp_all
  moreover have "- (2 ^ 31) \<le> (2 :: int) ^ k"
    by (rule order_trans [of _ 0]) simp_all
  ultimately have "signed_take_bit 31 ((2 :: int) ^ k) = 2 ^ k"
    by (intro signed_take_bit_int_eq_self)
  moreover have "sint (word_of_int (2 ^ k) :: 32 word) = signed_take_bit 31 ((2 :: int) ^ k)"
    by (simp only: signed_of_int) simp
  moreover have "push_bit (k mod 32) (word_of_int 1 :: 32 word) = word_of_int (2 ^ k)"
    using assms by (simp add: push_bit_eq_mult)
  ultimately show ?thesis by (simp only: shl32_def)
qed

lemma shl32_31: "shl32 1 31 = - 2147483648"
  by (simp add: shl32_def)

lemma test_bit32: "i < 32 \<Longrightarrow> (and32 m (shl32 1 i) \<noteq> 0) = bit m i"
proof -
  assume i: "i < 32"
  have "and32 m (shl32 1 i) = sint ((word_of_int m :: 32 word) AND push_bit i 1)"
    using i by (simp add: and32_def shl32_def)
  moreover have "((word_of_int m :: 32 word) AND push_bit i 1 \<noteq> 0) = bit (word_of_int m :: 32 word) i"
    by (metis and_exp_eq_0_iff_not_bit push_bit_of_1)
  moreover have "bit (word_of_int m :: 32 word) i = bit m i"
    using i by (simp add: bit_word_of_int_iff)
  ultimately show ?thesis by (simp only: sint_eq_0)
qed

lemma setProp_apply:
  "v \<noteq> ''__proto__'' \<Longrightarrow> setProp a v b = a(v \<mapsto> b)"
  by (simp add: setProp_def)

lemma assignVars_other:
  "v \<notin> set vs \<Longrightarrow> ''__proto__'' \<notin> set vs \<Longrightarrow> assignVars vs i m a v = a v"
  by (induction vs arbitrary: i a) (auto simp: setProp_apply)

lemma assignVars_nth:
  "distinct vs \<Longrightarrow> ''__proto__'' \<notin> set vs \<Longrightarrow> i + length vs \<le> 32 \<Longrightarrow> j < length vs \<Longrightarrow>
   assignVars vs i m a (vs ! j) = Some (bit m (i + j))"
proof (induction vs arbitrary: i j a)
  case Nil
  then show ?case by simp
next
  case (Cons v vs)
  show ?case
  proof (cases j)
    case 0
    with Cons.prems have "v \<noteq> ''__proto__''" by auto
    with 0 Cons.prems show ?thesis
      by (simp add: assignVars_other setProp_apply test_bit32)
  next
    case (Suc j')
    with Cons.prems Cons.IH [of "i + 1" j'] show ?thesis by simp
  qed
qed

lemma dom_assignVars:
  "''__proto__'' \<notin> set vs \<Longrightarrow> dom (assignVars vs i m a) = dom a \<union> set vs"
  by (induction vs arbitrary: i a) (auto simp: setProp_apply)

lemma makeAssignment_nth:
  "distinct vs \<Longrightarrow> ''__proto__'' \<notin> set vs \<Longrightarrow> length vs \<le> 32 \<Longrightarrow> j < length vs \<Longrightarrow>
   makeAssignment vs m (vs ! j) = Some (bit m j)"
  using assignVars_nth [of vs 0 j m Map.empty] by (simp add: makeAssignment_def)

lemma dom_makeAssignment:
  "''__proto__'' \<notin> set vs \<Longrightarrow> dom (makeAssignment vs m) = set vs"
  by (simp add: makeAssignment_def dom_assignVars)

text \<open>Every assignment over the variables is the row of some mask.\<close>

lemma makeAssignment_surj:
  assumes "distinct vs" and "''__proto__'' \<notin> set vs" and "length vs \<le> 32" and "dom a = set vs"
  shows "\<exists>m < 2 ^ length vs. makeAssignment vs (int m) = a"
proof -
  let ?bs = "map (\<lambda>v. the (a v)) vs"
  let ?m = "horner_sum of_bool (2 :: nat) ?bs"
  have lt: "?m < 2 ^ length vs"
    using horner_sum_bound [of ?bs, where ?'a = nat] by simp
  have "makeAssignment vs (int ?m) v = a v" for v
  proof (cases "v \<in> set vs")
    case False
    with assms(2,4) show ?thesis
      using dom_makeAssignment [OF assms(2), of "int ?m"] by (metis domIff)
  next
    case True
    then obtain j where j: "j < length vs" "vs ! j = v" by (auto simp: in_set_conv_nth)
    from True assms(4) obtain b where b: "a v = Some b" by auto
    have "bit (int ?m) j = bit ?m j" by (simp add: bit_of_nat_iff_bit)
    also have "\<dots> = (?bs ! j)" using j by (simp add: bit_horner_sum_bit_iff)
    also have "\<dots> = b" using j b by simp
    finally show ?thesis
      using makeAssignment_nth [OF assms(1,2,3) j(1), of "int ?m"] j b by simp
  qed
  then have "makeAssignment vs (int ?m) = a" by (rule ext)
  with lt show ?thesis by blast
qed


lemma collectVars_foldl:
  "collectVars e vars = foldl (\<lambda>vs v. setAdd v vs) vars (exprVars e)"
  by (induction e arbitrary: vars) simp_all

lemma foldl_collectVars:
  "foldl (\<lambda>vars p. collectVars p vars) acc ps =
   foldl (\<lambda>vs v. setAdd v vs) acc (concat (map exprVars ps))"
  by (induction ps arbitrary: acc) (simp_all add: collectVars_foldl)

lemma foldl_setAdd: "foldl (\<lambda>vs v. setAdd v vs) [] xs = firstOccurrences xs"
  by (induction xs rule: rev_induct) (simp_all add: firstOccurrences_def setAdd_def)

lemma varListOf_firstOccurrences:
  "varListOf ps c = firstOccurrences (concat (map exprVars (ps @ [c])))"
proof -
  have "varListOf ps c =
      foldl (\<lambda>vs v. setAdd v vs) (foldl (\<lambda>vs v. setAdd v vs) [] (concat (map exprVars ps)))
        (exprVars c)"
    by (simp only: varListOf_def foldl_collectVars) (simp only: collectVars_foldl)
  also have "\<dots> = foldl (\<lambda>vs v. setAdd v vs) [] (concat (map exprVars (ps @ [c])))"
    by simp
  finally show ?thesis by (simp only: foldl_setAdd)
qed

lemma distinct_varListOf: "distinct (varListOf ps c)"
  by (simp add: varListOf_firstOccurrences firstOccurrences_def)

lemma truthLoop_foldl:
  "0 \<le> msk \<Longrightarrow>
   truthLoop vs ps c total' msk st =
     foldl (\<lambda>s m. truthStep vs ps c (int m) s) st [nat msk..<nat total']"
proof (induction vs ps c total' msk st rule: truthLoop.induct)
  case (1 vs ps c total' msk st)
  show ?case
  proof (cases "msk < total'")
    case True
    with "1.prems" have "[nat msk..<nat total'] = nat msk # [nat (msk + 1)..<nat total']"
      by (simp add: upt_conv_Cons nat_add_distrib)
    with True "1.prems" "1.IH" show ?thesis
      by (subst truthLoop.simps) simp
  next
    case False
    then show ?thesis by (subst truthLoop.simps) simp
  qed
qed

lemma foldl_truthStep:
  "foldl (\<lambda>s m. truthStep vs ps c (int m) s) st ms =
     \<lparr>valid = (valid st \<and> (\<forall>m \<in> set ms. premisesTrue (rowOf vs ps c m) \<longrightarrow> conclusionTrue (rowOf vs ps c m))),
      consistent = (consistent st \<or> (\<exists>m \<in> set ms. premisesTrue (rowOf vs ps c m))),
      truthTable = truthTable st @ map (rowOf vs ps c) ms\<rparr>"
proof (induction ms arbitrary: st)
  case Nil
  then show ?case by simp
next
  case (Cons m ms)
  have "foldl (\<lambda>s m. truthStep vs ps c (int m) s) st (m # ms) =
        foldl (\<lambda>s m. truthStep vs ps c (int m) s) (truthStep vs ps c (int m) st) ms"
    by simp
  also note Cons.IH [of "truthStep vs ps c (int m) st"]
  also have "valid (truthStep vs ps c (int m) st) =
      (valid st \<and> (premisesTrue (rowOf vs ps c m) \<longrightarrow> conclusionTrue (rowOf vs ps c m)))"
    by (simp add: truthStep_def Let_def rowOf_def)
  also have "consistent (truthStep vs ps c (int m) st) =
      (consistent st \<or> premisesTrue (rowOf vs ps c m))"
    by (simp add: truthStep_def Let_def rowOf_def)
  also have "truthTable (truthStep vs ps c (int m) st) = truthTable st @ [rowOf vs ps c m]"
    by (simp add: truthStep_def Let_def rowOf_def)
  finally show ?case by auto
qed

lemma truthTableOf_small:
  assumes "length (varListOf ps c) \<le> 30"
  shows "truthTableOf ps c =
     \<lparr>valid = (\<forall>m < 2 ^ length (varListOf ps c).
                 premisesTrue (rowOf (varListOf ps c) ps c m) \<longrightarrow>
                 conclusionTrue (rowOf (varListOf ps c) ps c m)),
      consistent = (\<exists>m < 2 ^ length (varListOf ps c). premisesTrue (rowOf (varListOf ps c) ps c m)),
      truthTable = map (rowOf (varListOf ps c) ps c) [0..<2 ^ length (varListOf ps c)]\<rparr>"
proof -
  from assms have "shl32 1 (length (varListOf ps c)) = 2 ^ length (varListOf ps c)"
    by (intro shl32_one) simp
  moreover have "nat ((2 :: int) ^ length (varListOf ps c)) = 2 ^ length (varListOf ps c)"
    by (simp add: nat_power_eq)
  ultimately show ?thesis
    by (simp add: truthTableOf_def Let_def truthLoop_foldl foldl_truthStep Ball_def Bex_def
          nat_power_eq)
qed

text \<open>
  C1, as amended. For premises and a conclusion with at most 30 distinct variables, none of
  them named \<^verbatim>\<open>__proto__\<close>: the variables are collected in order of first appearance, without
  duplicates; the table has \<open>2^k\<close> rows, whose assignments are exactly the assignments
  that give a value to each of the \<open>k\<close> variables and to nothing else; each row records
  whether all premises hold and whether the conclusion holds; and the verdict is
  inconsistent if no such assignment satisfies all premises, otherwise valid if every such
  assignment that satisfies all premises satisfies the conclusion, otherwise invalid.
\<close>

theorem solveVerdict_enumerates:
  assumes "length (varListOf ps c) \<le> 30" and "''__proto__'' \<notin> set (varListOf ps c)"
  shows "varListOf ps c = firstOccurrences (concat (map exprVars (ps @ [c])))
    \<and> length (truthTable (truthTableOf ps c)) = 2 ^ length (varListOf ps c)
    \<and> row_assignment ` set (truthTable (truthTableOf ps c)) = {a. dom a = set (varListOf ps c)}
    \<and> list_all (\<lambda>row. premisesTrue row = list_all (\<lambda>p. evalExpr p (row_assignment row)) ps
                     \<and> conclusionTrue row = evalExpr c (row_assignment row))
         (truthTable (truthTableOf ps c))
    \<and> solveVerdict ps c =
        (if \<not> (\<exists>a. dom a = set (varListOf ps c) \<and> list_all (\<lambda>p. evalExpr p a) ps)
         then Inconsistent
         else if (\<forall>a. dom a = set (varListOf ps c) \<and> list_all (\<lambda>p. evalExpr p a) ps
                      \<longrightarrow> evalExpr c a)
         then Valid
         else Invalid)"
proof -
  let ?vs = "varListOf ps c"
  let ?k = "length ?vs"
  have dist: "distinct ?vs" by (rule distinct_varListOf)
  from assms(1) have le32: "?k \<le> 32" by simp
  have dom_row: "dom (makeAssignment ?vs m) = set ?vs" for m
    by (rule dom_makeAssignment [OF assms(2)])
  have surj: "\<exists>m < 2 ^ ?k. makeAssignment ?vs (int m) = a" if "dom a = set ?vs" for a
    by (rule makeAssignment_surj [OF dist assms(2) le32 that])
  note tt = truthTableOf_small [OF assms(1)]
  have rows: "row_assignment ` set (truthTable (truthTableOf ps c)) = {a. dom a = set ?vs}"
  proof (intro set_eqI iffI)
    fix a :: assignment
    assume "a \<in> row_assignment ` set (truthTable (truthTableOf ps c))"
    then obtain m where "a = makeAssignment ?vs (int m)"
      by (auto simp: tt rowOf_def)
    with dom_row show "a \<in> {a. dom a = set ?vs}" by simp
  next
    fix a :: assignment
    assume "a \<in> {a. dom a = set ?vs}"
    then obtain m where "m < 2 ^ ?k" "makeAssignment ?vs (int m) = a"
      using surj by blast
    then have "a = row_assignment (rowOf ?vs ps c m)"
      and "rowOf ?vs ps c m \<in> set (truthTable (truthTableOf ps c))"
      by (simp_all add: tt) (simp add: rowOf_def)
    then show "a \<in> row_assignment ` set (truthTable (truthTableOf ps c))" by blast
  qed
  have cons: "consistent (truthTableOf ps c) =
      (\<exists>a. dom a = set ?vs \<and> list_all (\<lambda>p. evalExpr p a) ps)"
  proof
    assume "consistent (truthTableOf ps c)"
    then obtain m where "list_all (\<lambda>p. evalExpr p (makeAssignment ?vs (int m))) ps"
      by (auto simp: tt rowOf_def)
    with dom_row show "\<exists>a. dom a = set ?vs \<and> list_all (\<lambda>p. evalExpr p a) ps" by blast
  next
    assume "\<exists>a. dom a = set ?vs \<and> list_all (\<lambda>p. evalExpr p a) ps"
    then obtain a where a: "dom a = set ?vs" "list_all (\<lambda>p. evalExpr p a) ps" by blast
    from surj [OF a(1)] obtain m where "m < 2 ^ ?k" "makeAssignment ?vs (int m) = a" by blast
    with a(2) show "consistent (truthTableOf ps c)"
      by (auto simp: tt rowOf_def)
  qed
  have val: "valid (truthTableOf ps c) =
      (\<forall>a. dom a = set ?vs \<and> list_all (\<lambda>p. evalExpr p a) ps \<longrightarrow> evalExpr c a)"
  proof
    assume v: "valid (truthTableOf ps c)"
    show "\<forall>a. dom a = set ?vs \<and> list_all (\<lambda>p. evalExpr p a) ps \<longrightarrow> evalExpr c a"
    proof (intro allI impI)
      fix a :: assignment
      assume a: "dom a = set ?vs \<and> list_all (\<lambda>p. evalExpr p a) ps"
      from surj [of a] a obtain m where "m < 2 ^ ?k" "makeAssignment ?vs (int m) = a" by blast
      with v a show "evalExpr c a" by (auto simp: tt rowOf_def)
    qed
  next
    assume "\<forall>a. dom a = set ?vs \<and> list_all (\<lambda>p. evalExpr p a) ps \<longrightarrow> evalExpr c a"
    with dom_row show "valid (truthTableOf ps c)"
      by (auto simp: tt rowOf_def)
  qed
  have len: "length (truthTable (truthTableOf ps c)) = 2 ^ ?k"
    by (simp add: tt)
  have each: "list_all (\<lambda>row. premisesTrue row = list_all (\<lambda>p. evalExpr p (row_assignment row)) ps
                     \<and> conclusionTrue row = evalExpr c (row_assignment row))
         (truthTable (truthTableOf ps c))"
    by (simp add: tt list_all_iff rowOf_def)
  have verdict: "solveVerdict ps c =
        (if \<not> (\<exists>a. dom a = set ?vs \<and> list_all (\<lambda>p. evalExpr p a) ps)
         then Inconsistent
         else if (\<forall>a. dom a = set ?vs \<and> list_all (\<lambda>p. evalExpr p a) ps \<longrightarrow> evalExpr c a)
         then Valid
         else Invalid)"
    unfolding solveVerdict_def Let_def cons val by simp
  from varListOf_firstOccurrences len rows each verdict show ?thesis by blast
qed

theorem solveVerdict_enumerates_witness:
  "length (varListOf [EImp (EVar ''P'') (EVar ''Q''), EVar ''P''] (EVar ''Q'')) \<le> 30
   \<and> ''__proto__'' \<notin> set (varListOf [EImp (EVar ''P'') (EVar ''Q''), EVar ''P''] (EVar ''Q''))
   \<and> varListOf [EImp (EVar ''P'') (EVar ''Q''), EVar ''P''] (EVar ''Q'') = [''P'', ''Q'']
   \<and> length (truthTable (truthTableOf [EImp (EVar ''P'') (EVar ''Q''), EVar ''P''] (EVar ''Q''))) = 4
   \<and> solveVerdict [EImp (EVar ''P'') (EVar ''Q''), EVar ''P''] (EVar ''Q'') = Valid"
proof -
  have vars: "varListOf [EImp (EVar ''P'') (EVar ''Q''), EVar ''P''] (EVar ''Q'') = [''P'', ''Q'']"
    by code_simp
  have h1: "length (varListOf [EImp (EVar ''P'') (EVar ''Q''), EVar ''P''] (EVar ''Q'')) \<le> 30"
    by (simp add: vars)
  have h2: "''__proto__'' \<notin> set (varListOf [EImp (EVar ''P'') (EVar ''Q''), EVar ''P''] (EVar ''Q''))"
    by (simp add: vars)
  from solveVerdict_enumerates [OF h1 h2]
  have "length (truthTable (truthTableOf [EImp (EVar ''P'') (EVar ''Q''), EVar ''P''] (EVar ''Q''))) =
        2 ^ length (varListOf [EImp (EVar ''P'') (EVar ''Q''), EVar ''P''] (EVar ''Q''))"
    by blast
  then have len: "length (truthTable (truthTableOf [EImp (EVar ''P'') (EVar ''Q''), EVar ''P''] (EVar ''Q''))) = 4"
    by (simp add: vars)
  have v: "solveVerdict [EImp (EVar ''P'') (EVar ''Q''), EVar ''P''] (EVar ''Q'') = Valid"
    by code_simp
  from vars h1 h2 len v show ?thesis by blast
qed

text \<open>
  C1 as stated fails: with 31 distinct variables \<^verbatim>\<open>1 << 31\<close> is negative, the loop builds no
  row, and the verdict is inconsistent although the premise \<^verbatim>\<open>~a\<close> holds in the row of
  mask 0.
\<close>

theorem solveVerdict_counterexample:
  "length (varListOf [ENot (EVar ''a'')] manyVarsDisjunction) = 31
   \<and> evalExpr (ENot (EVar ''a''))
       (makeAssignment (varListOf [ENot (EVar ''a'')] manyVarsDisjunction) 0)
   \<and> solveVerdict [ENot (EVar ''a'')] manyVarsDisjunction = Inconsistent
   \<and> truthTable (truthTableOf [ENot (EVar ''a'')] manyVarsDisjunction) = []"
  by code_simp

end
